theory Spec2Isabelle
  imports Complex_Main
begin

section \<open>Outcomes of a C execution\<close>

text \<open>
  The program is C and reports no errors of its own.  An execution either
  returns a value, or it leaves the defined behaviour of the language.  The
  second kind of outcome is kept as a value of type \<open>fault\<close>, so that every
  array access and every arithmetic operation of the source is a branch of
  the model:
  \<^item> \<open>Out_of_bounds\<close>: a read or write outside an allocated block (also
    through the null pointer a failed \<open>malloc\<close> returns);
  \<^item> \<open>Uninitialised\<close>: a read of a cell of a fresh \<open>malloc\<close> block that was
    never written (its value is indeterminate);
  \<^item> \<open>Signed_overflow\<close>: an \<open>int\<close> counter incremented past \<open>INT_MAX\<close>, or a
    \<open>size_t\<close> that does not fit the \<open>int\<close> parameter it is passed to;
  \<^item> \<open>Not_finite\<close>: a \<open>double\<close> operation outside its real domain, where
    IEEE arithmetic yields NaN or an infinity (these propagate to the result
    of every function below);
  \<^item> \<open>Library_exit\<close>: the external spline library terminated the process.

  A \<open>double\<close> is modelled by the real number it stands for: rounding,
  overflow to infinity and underflow are not part of the model.
\<close>

datatype fault = Out_of_bounds | Uninitialised | Signed_overflow | Not_finite | Library_exit

definition and_then :: "fault + 'a \<Rightarrow> ('a \<Rightarrow> fault + 'b) \<Rightarrow> fault + 'b" where
  "and_then m f = (case m of Inl e \<Rightarrow> Inl e | Inr v \<Rightarrow> f v)"

lemma and_then_cong [fundef_cong]:
  "m = m' \<Longrightarrow> (\<And>v. m' = Inr v \<Longrightarrow> f v = f' v) \<Longrightarrow> and_then m f = and_then m' f'"
  by (cases m') (simp_all add: and_then_def)

subsection \<open>Integers: \<open>size_t\<close> and \<open>int\<close>\<close>

text \<open>
  \<open>size_t\<close> is the 64-bit unsigned type: its arithmetic wraps modulo \<open>2^64\<close>.
  \<open>int\<close> is the 32-bit signed type: the counters of the source only ever
  count upwards from 0 or 1, so they are naturals, and the increment past
  \<open>INT_MAX\<close> is a fault.
\<close>

definition size_add :: "nat \<Rightarrow> nat \<Rightarrow> nat" where
  "size_add a b = (a + b) mod 2 ^ 64"

definition size_mul :: "nat \<Rightarrow> nat \<Rightarrow> nat" where
  "size_mul a b = (a * b) mod 2 ^ 64"

definition size_sub :: "nat \<Rightarrow> nat \<Rightarrow> nat" where
  "size_sub a b = (a mod 2 ^ 64 + 2 ^ 64 - b mod 2 ^ 64) mod 2 ^ 64"

definition INT_MAX :: nat where
  "INT_MAX = 2 ^ 31 - 1"

definition PTRDIFF_MAX :: nat where
  "PTRDIFF_MAX = 2 ^ 63 - 1"

definition int_incr :: "nat \<Rightarrow> fault + nat" where
  "int_incr n = (if n < INT_MAX then Inr (n + 1) else Inl Signed_overflow)"

definition size_to_int :: "nat \<Rightarrow> fault + nat" where
  "size_to_int n = (if n \<le> INT_MAX then Inr n else Inl Signed_overflow)"

subsection \<open>Arrays of \<open>double\<close>\<close>

text \<open>
  A block returned by \<open>malloc\<close> is a list of cells, \<open>None\<close> for a cell that
  has not been written.  \<open>malloc (sizeof (double) * n)\<close> multiplies in
  \<open>size_t\<close>; a request above \<open>PTRDIFF_MAX\<close> bytes fails and yields the null
  pointer, a block with no cell.  Any smaller request is taken to succeed.
\<close>

type_synonym cell = "real option"

definition malloc_doubles :: "nat \<Rightarrow> cell list" where
  "malloc_doubles n =
     (let bytes = size_mul 8 n
      in if bytes \<le> PTRDIFF_MAX then replicate (bytes div 8) None else [])"

definition rd :: "'a list \<Rightarrow> nat \<Rightarrow> fault + 'a" where
  "rd arr i = (if i < length arr then Inr (arr ! i) else Inl Out_of_bounds)"

definition load :: "cell list \<Rightarrow> nat \<Rightarrow> fault + real" where
  "load arr i =
     (if i < length arr
      then (case arr ! i of None \<Rightarrow> Inl Uninitialised | Some v \<Rightarrow> Inr v)
      else Inl Out_of_bounds)"

definition store :: "cell list \<Rightarrow> nat \<Rightarrow> real \<Rightarrow> fault + cell list" where
  "store arr i v = (if i < length arr then Inr (arr[i := Some v]) else Inl Out_of_bounds)"

subsection \<open>The functions of \<open>math.h\<close> on finite values\<close>

definition c_pow :: "real \<Rightarrow> real \<Rightarrow> fault + real" where
  "c_pow b e =
     (if e = 0 then Inr 1
      else if 0 < b then Inr (b powr e)
      else if b = 0 then (if 0 < e then Inr 0 else Inl Not_finite)
      else if e = of_int \<lfloor>e\<rfloor> then Inr (b powi \<lfloor>e\<rfloor>)
      else Inl Not_finite)"

definition c_log :: "real \<Rightarrow> fault + real" where
  "c_log v = (if 0 < v then Inr (ln v) else Inl Not_finite)"

definition c_log10 :: "real \<Rightarrow> fault + real" where
  "c_log10 v = (if 0 < v then Inr (log 10 v) else Inl Not_finite)"

definition c_sqrt :: "real \<Rightarrow> fault + real" where
  "c_sqrt v = (if 0 \<le> v then Inr (sqrt v) else Inl Not_finite)"

definition c_div :: "real \<Rightarrow> real \<Rightarrow> fault + real" where
  "c_div a b = (if b = 0 then Inl Not_finite else Inr (a / b))"

section \<open>Constants and global data\<close>

text \<open>
  The macro \<open>PI\<close> is the decimal literal of the source, the \<open>double\<close> nearest
  to \<open>\<pi>\<close>; it is kept as written.
\<close>

definition PI :: real where
  "PI = 3.141592653589793"

definition global_border :: real where
  "global_border = 0.1"

text \<open>
  The two global structures.  Their arrays are blocks from \<open>malloc\<close>; \<open>len\<close>
  and \<open>order\<close> are \<open>size_t\<close>.
\<close>

record global_data =
  gd_x :: "cell list"
  gd_y :: "cell list"
  gd_len :: nat
  gd_order :: nat

record pchip_buffer =
  pb_d :: "cell list"
  pb_out :: "cell list"

record globals =
  g_data :: global_data
  g_pchip :: pchip_buffer

record coef =
  coef_x :: "cell list"
  coef_y :: "cell list"
  coef_a :: "cell list"

section \<open>\<open>init_globals\<close>\<close>

function init_globals_loop ::
  "real list \<Rightarrow> real list \<Rightarrow> nat \<Rightarrow> nat \<Rightarrow> cell list \<Rightarrow> cell list \<Rightarrow> fault + cell list \<times> cell list"
where
  "init_globals_loop x y len i gx gy =
     (if i < len
      then and_then (rd x i) (\<lambda>xi.
           and_then (store gx i xi) (\<lambda>gx'.
           and_then (rd y i) (\<lambda>yi.
           and_then (store gy i yi) (\<lambda>gy'.
           and_then (int_incr i) (\<lambda>i'.
           init_globals_loop x y len i' gx' gy')))))
      else Inr (gx, gy))"
  by pat_completeness auto
termination
  by (relation "measure (\<lambda>(x, y, len, i, gx, gy). len - i)")
     (auto simp: int_incr_def split: if_splits)

declare init_globals_loop.simps [simp del]

definition init_globals :: "real list \<Rightarrow> real list \<Rightarrow> nat \<Rightarrow> nat \<Rightarrow> fault + globals" where
  "init_globals x y len order =
     and_then (init_globals_loop x y len 0 (malloc_doubles len) (malloc_doubles len)) (\<lambda>(gx, gy).
     Inr \<lparr>g_data = \<lparr>gd_x = gx, gd_y = gy, gd_len = len, gd_order = order\<rparr>,
          g_pchip = \<lparr>pb_d = malloc_doubles (size_add order 2),
                     pb_out = malloc_doubles len\<rparr>\<rparr>)"

section \<open>The foreground models\<close>

text \<open>\<open>t21fg_edgesa\<close>: the five-term model, evaluated left to right as written.\<close>

definition t21fg_edgesa :: "cell list \<Rightarrow> real \<Rightarrow> fault + real" where
  "t21fg_edgesa a nu =
     (let nuc = 75 in
      and_then (load a 0) (\<lambda>a0.
      and_then (c_pow (nu / nuc) (- 2.5)) (\<lambda>p0.
      and_then (load a 1) (\<lambda>a1.
      and_then (c_pow (nu / nuc) (- 2.5)) (\<lambda>p1.
      and_then (c_log (nu / nuc)) (\<lambda>l1.
      and_then (load a 2) (\<lambda>a2.
      and_then (c_pow (nu / nuc) (- 2.5)) (\<lambda>p2.
      and_then (c_log (nu / nuc)) (\<lambda>l2.
      and_then (c_pow l2 2.0) (\<lambda>q2.
      and_then (load a 3) (\<lambda>a3.
      and_then (c_pow (nu / nuc) (- 4.5)) (\<lambda>p3.
      and_then (load a 4) (\<lambda>a4.
      and_then (c_pow (nu / nuc) (- 2.0)) (\<lambda>p4.
      Inr (a0 * p0 + a1 * p1 * l1 + a2 * p2 * q2 + a3 * p3 + a4 * p4)))))))))))))))"

text \<open>
  \<open>t21fg_sims\<close>: the loop variable \<open>i\<close> runs from 4 to 8 and is used both as
  the index into \<open>d\<close> and as the exponent of \<open>log10 (nu / nuc)\<close>.
\<close>

function t21fg_sims_loop :: "cell list \<Rightarrow> real \<Rightarrow> nat \<Rightarrow> real \<Rightarrow> fault + real" where
  "t21fg_sims_loop d nu i Tfg_pow =
     (if i < 4 + 5
      then and_then (load d i) (\<lambda>di.
           and_then (c_log10 (nu / 75)) (\<lambda>l.
           and_then (c_pow l (real i)) (\<lambda>p.
           and_then (c_pow 10 (di * p)) (\<lambda>t.
           t21fg_sims_loop d nu (i + 1) (Tfg_pow + t)))))
      else Inr Tfg_pow)"
  by pat_completeness auto
termination
  by (relation "measure (\<lambda>(d, nu, i, Tfg_pow). 9 - i)") auto

declare t21fg_sims_loop.simps [simp del]

definition t21fg_sims :: "cell list \<Rightarrow> real \<Rightarrow> fault + real" where
  "t21fg_sims d nu =
     (let nuc = 75 in
      and_then (load d 0) (\<lambda>d0.
      and_then (c_pow (nu / nuc) d0) (\<lambda>p.
      and_then (load d 2) (\<lambda>d2.
      and_then (load d 1) (\<lambda>d1.
      and_then (c_div (2 * PI * nu) d1) (\<lambda>ph.
      and_then (load d 3) (\<lambda>d3.
      let Tcal = p * (d2 * sin ph + d3 * cos ph) in
      and_then (t21fg_sims_loop d nu 4 0) (\<lambda>Tfg_pow.
      Inr (Tfg_pow + Tcal)))))))))"

definition t21fg :: "cell list \<Rightarrow> real \<Rightarrow> fault + real" where
  "t21fg a nu = t21fg_edgesa a nu"


section \<open>\<open>kwargs2coef\<close>: decoding a proposal vector\<close>

text \<open>
  \<open>keys[i][0]\<close>: the first character of a C string; for the empty string it
  is the terminating NUL.
\<close>

definition leading_char :: "string \<Rightarrow> char" where
  "leading_char key = (case key of [] \<Rightarrow> CHR 0x00 | c # _ \<Rightarrow> c)"

text \<open>The local variables of \<open>kwargs2coef\<close>: the three blocks and the four counters.\<close>

record decoding =
  dec_coef :: coef
  x_loc :: nat
  y_loc :: nat
  a_loc :: nat
  f_loc :: nat

text \<open>The body of the loop: the \<open>switch\<close> on \<open>keys[i][0]\<close>, which has no default case.\<close>

definition kwargs2coef_switch ::
  "global_data \<Rightarrow> string list \<Rightarrow> real list \<Rightarrow> nat \<Rightarrow> decoding \<Rightarrow> fault + decoding"
where
  "kwargs2coef_switch gd keys val i st =
     and_then (rd keys i) (\<lambda>key.
     let c = leading_char key; coef = dec_coef st in
     if c = CHR ''x'' then
       and_then (rd val i) (\<lambda>v.
       and_then (store (coef_x coef) (x_loc st) v) (\<lambda>cx.
       and_then (int_incr (x_loc st)) (\<lambda>l.
       Inr (st\<lparr>dec_coef := coef\<lparr>coef_x := cx\<rparr>, x_loc := l\<rparr>))))
     else if c = CHR ''y'' then
       and_then (rd val i) (\<lambda>v.
       and_then (store (coef_y coef) (y_loc st) v) (\<lambda>cy.
       and_then (int_incr (y_loc st)) (\<lambda>l.
       Inr (st\<lparr>dec_coef := coef\<lparr>coef_y := cy\<rparr>, y_loc := l\<rparr>))))
     else if c = CHR ''a'' then
       and_then (rd val i) (\<lambda>v.
       and_then (store (coef_a coef) (a_loc st) v) (\<lambda>ca.
       and_then (int_incr (a_loc st)) (\<lambda>l.
       Inr (st\<lparr>dec_coef := coef\<lparr>coef_a := ca\<rparr>, a_loc := l\<rparr>))))
     else if c = CHR ''f'' then
       (if f_loc st = 0 then
          and_then (load (gd_x gd) 0) (\<lambda>x0.
          and_then (store (coef_x coef) 0 (x0 - global_border)) (\<lambda>cx.
          and_then (rd val i) (\<lambda>v.
          and_then (store (coef_y coef) 0 v) (\<lambda>cy.
          and_then (int_incr (f_loc st)) (\<lambda>l.
          Inr (st\<lparr>dec_coef := coef\<lparr>coef_x := cx, coef_y := cy\<rparr>, f_loc := l\<rparr>))))))
        else
          and_then (load (gd_x gd) (size_sub (gd_len gd) 1)) (\<lambda>xn.
          and_then (store (coef_x coef) (size_add (gd_order gd) 1) (xn + global_border)) (\<lambda>cx.
          and_then (rd val i) (\<lambda>v.
          and_then (store (coef_y coef) (size_add (gd_order gd) 1) v) (\<lambda>cy.
          Inr (st\<lparr>dec_coef := coef\<lparr>coef_x := cx, coef_y := cy\<rparr>\<rparr>))))))
     else Inr st)"

function kwargs2coef_loop ::
  "global_data \<Rightarrow> string list \<Rightarrow> real list \<Rightarrow> nat \<Rightarrow> nat \<Rightarrow> decoding \<Rightarrow> fault + decoding"
where
  "kwargs2coef_loop gd keys val len i st =
     (if i < len
      then and_then (kwargs2coef_switch gd keys val i st) (\<lambda>st'.
           and_then (int_incr i) (\<lambda>i'.
           kwargs2coef_loop gd keys val len i' st'))
      else Inr st)"
  by pat_completeness auto
termination
  by (relation "measure (\<lambda>(gd, keys, val, len, i, st). len - i)")
     (auto simp: int_incr_def split: if_splits)

declare kwargs2coef_loop.simps [simp del]

text \<open>The three allocations and the initial counters.\<close>

definition kwargs2coef_start :: "global_data \<Rightarrow> nat \<Rightarrow> decoding" where
  "kwargs2coef_start gd len =
     \<lparr>dec_coef =
        \<lparr>coef_x = malloc_doubles (size_add (gd_order gd) 2),
         coef_y = malloc_doubles (size_add (gd_order gd) 2),
         coef_a = malloc_doubles (size_sub len (size_add (size_mul 2 (gd_order gd)) 2))\<rparr>,
      x_loc = 1, y_loc = 1, a_loc = 0, f_loc = 0\<rparr>"

definition kwargs2coef_run ::
  "global_data \<Rightarrow> string list \<Rightarrow> real list \<Rightarrow> nat \<Rightarrow> fault + decoding"
where
  "kwargs2coef_run gd keys val len = kwargs2coef_loop gd keys val len 0 (kwargs2coef_start gd len)"

definition kwargs2coef ::
  "global_data \<Rightarrow> string list \<Rightarrow> real list \<Rightarrow> nat \<Rightarrow> fault + coef"
where
  "kwargs2coef gd keys val len =
     and_then (kwargs2coef_run gd keys val len) (\<lambda>st. Inr (dec_coef st))"

section \<open>\<open>logpdf\<close> and \<open>log_likleyhood\<close>\<close>

definition logpdf :: "real \<Rightarrow> real \<Rightarrow> fault + real" where
  "logpdf y mean =
     (let stdev = 0.025; u = (y - mean) / stdev in
      and_then (c_pow u 2) (\<lambda>p.
      and_then (c_sqrt (2 * PI)) (\<lambda>r.
      and_then (c_log (r * stdev)) (\<lambda>l.
      Inr ((- 0.5 * p) - l)))))"

text \<open>
  The spline library (\<open>spline.h\<close>) is not part of the sources, so it is a
  parameter of the model.  \<open>spline_pchip_set n x f\<close> stands for the call that
  reads \<open>n\<close> cells of \<open>x\<close> and \<open>f\<close> and writes the derivatives into \<open>d\<close>;
  \<open>spline_pchip_val n x f d ne xe\<close> for the call that also reads \<open>n\<close> cells
  of \<open>d\<close> and \<open>ne\<close> cells of \<open>xe\<close> and writes into \<open>fe\<close>.  Each returns the
  values it writes, from the start of the output block, or \<open>None\<close> when the
  library stops the process.
\<close>

record spline =
  spline_pchip_set :: "nat \<Rightarrow> real list \<Rightarrow> real list \<Rightarrow> real list option"
  spline_pchip_val ::
    "nat \<Rightarrow> real list \<Rightarrow> real list \<Rightarrow> real list \<Rightarrow> nat \<Rightarrow> real list \<Rightarrow> real list option"

definition library_call :: "'a option \<Rightarrow> fault + 'a" where
  "library_call r = (case r of None \<Rightarrow> Inl Library_exit | Some v \<Rightarrow> Inr v)"

definition load_block :: "cell list \<Rightarrow> nat \<Rightarrow> fault + real list" where
  "load_block arr n =
     (if length arr < n then Inl Out_of_bounds
      else if None \<in> set (take n arr) then Inl Uninitialised
      else Inr (map the (take n arr)))"

definition store_block :: "cell list \<Rightarrow> real list \<Rightarrow> fault + cell list" where
  "store_block arr vs =
     (if length vs \<le> length arr then Inr (map Some vs @ drop (length vs) arr)
      else Inl Out_of_bounds)"

function log_likleyhood_loop ::
  "global_data \<Rightarrow> cell list \<Rightarrow> cell list \<Rightarrow> nat \<Rightarrow> real \<Rightarrow> fault + real"
where
  "log_likleyhood_loop gd out a i retval =
     (if i < gd_len gd
      then and_then (load (gd_y gd) i) (\<lambda>yi.
           and_then (load out i) (\<lambda>si.
           and_then (load (gd_x gd) i) (\<lambda>xi.
           and_then (t21fg a xi) (\<lambda>fg.
           and_then (logpdf yi (si + fg)) (\<lambda>l.
           and_then (int_incr i) (\<lambda>i'.
           log_likleyhood_loop gd out a i' (retval + l)))))))
      else Inr retval)"
  by pat_completeness auto
termination
  by (relation "measure (\<lambda>(gd, out, a, i, retval). gd_len gd - i)")
     (auto simp: int_incr_def split: if_splits)

declare log_likleyhood_loop.simps [simp del]

text \<open>
  \<open>log_likleyhood\<close> returns the value and the globals it leaves behind: the
  two scratch blocks are overwritten, the decoded coefficients are freed.
\<close>

definition log_likleyhood ::
  "spline \<Rightarrow> globals \<Rightarrow> string list \<Rightarrow> real list \<Rightarrow> nat \<Rightarrow> fault + real \<times> globals"
where
  "log_likleyhood lib g keys val len =
     (let gd = g_data g; pb = g_pchip g in
      and_then (kwargs2coef gd keys val len) (\<lambda>coef.
      and_then (size_to_int (size_add (gd_order gd) 2)) (\<lambda>n.
      and_then (load_block (coef_x coef) n) (\<lambda>x.
      and_then (load_block (coef_y coef) n) (\<lambda>f.
      and_then (library_call (spline_pchip_set lib n x f)) (\<lambda>d.
      and_then (store_block (pb_d pb) d) (\<lambda>buf_d.
      and_then (load_block buf_d n) (\<lambda>d'.
      and_then (size_to_int (gd_len gd)) (\<lambda>ne.
      and_then (load_block (gd_x gd) ne) (\<lambda>xe.
      and_then (library_call (spline_pchip_val lib n x f d' ne xe)) (\<lambda>fe.
      and_then (store_block (pb_out pb) fe) (\<lambda>buf_out.
      and_then (log_likleyhood_loop gd buf_out (coef_a coef) 0 0) (\<lambda>retval.
      Inr (retval, g\<lparr>g_pchip := \<lparr>pb_d = buf_d, pb_out = buf_out\<rparr>\<rparr>))))))))))))))"

section \<open>Vocabulary of the specification\<close>

text \<open>
  The dataset held by the globals after \<open>init_globals\<close> has copied the
  observations \<open>xs\<close>, \<open>ys\<close> and stored the order.
\<close>

definition dataset :: "real list \<Rightarrow> real list \<Rightarrow> nat \<Rightarrow> global_data" where
  "dataset xs ys order =
     \<lparr>gd_x = map Some xs, gd_y = map Some ys, gd_len = length xs, gd_order = order\<rparr>"

text \<open>
  The Ready state: the dataset is in place, the sizes fit the \<open>int\<close>
  parameters of the library, and the scratch blocks have their sizes (their
  contents are arbitrary).
\<close>

definition ready :: "real list \<Rightarrow> real list \<Rightarrow> nat \<Rightarrow> globals \<Rightarrow> bool" where
  "ready xs ys order g \<longleftrightarrow>
     g_data g = dataset xs ys order \<and> length ys = length xs \<and>
     length xs \<le> INT_MAX \<and> order + 2 \<le> INT_MAX \<and>
     length (pb_d (g_pchip g)) = order + 2 \<and>
     length (pb_out (g_pchip g)) = length xs"

text \<open>
  The values of a proposal vector whose name starts with the character \<open>c\<close>,
  in the order in which they occur.
\<close>

definition tagged :: "char \<Rightarrow> string list \<Rightarrow> real list \<Rightarrow> real list" where
  "tagged c keys val = map snd (filter (\<lambda>kv. leading_char (fst kv) = c) (zip keys val))"

text \<open>
  The state of the decoding loop after the first \<open>j\<close> entries of the proposal
  vector, for the dataset \<open>xs\<close> and the order \<open>n\<close>: the counters count the
  entries seen under each tag, every cell written so far holds the value of
  the entry that addressed it, and every other cell is still unwritten.
\<close>

definition decoded_upto ::
  "real list \<Rightarrow> nat \<Rightarrow> nat \<Rightarrow> string list \<Rightarrow> real list \<Rightarrow> nat \<Rightarrow> decoding \<Rightarrow> bool"
where
  "decoded_upto xs n acap keys val j st \<longleftrightarrow>
     (let X = tagged CHR ''x'' (take j keys) (take j val);
          Y = tagged CHR ''y'' (take j keys) (take j val);
          A = tagged CHR ''a'' (take j keys) (take j val);
          F = tagged CHR ''f'' (take j keys) (take j val);
          c = dec_coef st
      in length (coef_x c) = n + 2 \<and> length (coef_y c) = n + 2 \<and> length (coef_a c) = acap \<and>
         x_loc st = Suc (length X) \<and> y_loc st = Suc (length Y) \<and> a_loc st = length A \<and>
         f_loc st = (if F = [] then 0 else 1) \<and>
         length X \<le> n + 1 \<and> length Y \<le> n + 1 \<and> length A \<le> acap \<and>
         (\<forall>k. 1 \<le> k \<and> k \<le> n \<longrightarrow>
            coef_x c ! k = (if k \<le> length X then Some (X ! (k - 1)) else None)) \<and>
         (\<forall>k. 1 \<le> k \<and> k \<le> n \<longrightarrow>
            coef_y c ! k = (if k \<le> length Y then Some (Y ! (k - 1)) else None)) \<and>
         (\<forall>k < acap. coef_a c ! k = (if k < length A then Some (A ! k) else None)) \<and>
         coef_x c ! 0 = (if F = [] then None else Some (xs ! 0 - global_border)) \<and>
         coef_y c ! 0 = (if F = [] then None else Some (F ! 0)) \<and>
         (length X \<le> n \<longrightarrow>
            coef_x c ! (n + 1) = (if length F < 2 then None else Some (last xs + global_border))) \<and>
         (length Y \<le> n \<longrightarrow>
            coef_y c ! (n + 1) = (if length F < 2 then None else Some (last F))) \<and>
         (F \<noteq> [] \<longrightarrow> xs \<noteq> []))"

text \<open>
  The number of cells of the block \<open>coef.a\<close> that \<open>kwargs2coef\<close> allocates for
  a proposal vector of length \<open>len\<close> at order \<open>n\<close>.
\<close>

definition a_capacity :: "nat \<Rightarrow> nat \<Rightarrow> nat" where
  "a_capacity n len = length (malloc_doubles (size_sub len (size_add (size_mul 2 n) 2)))"

text \<open>
  The EdgesPowerLawLog foreground as the specification writes it, with the
  reference frequency 75.
\<close>

definition edges_power_law_log :: "real list \<Rightarrow> real \<Rightarrow> real" where
  "edges_power_law_log a nu =
     a ! 0 * (nu / 75) powr (- 2.5)
   + a ! 1 * (nu / 75) powr (- 2.5) * ln (nu / 75)
   + a ! 2 * (nu / 75) powr (- 2.5) * (ln (nu / 75))\<^sup>2
   + a ! 3 * (nu / 75) powr (- 4.5)
   + a ! 4 * (nu / 75) powr (- 2.0)"

text \<open>
  The knot set of the specification for a proposal vector that meets the
  schema: the two boundary x-positions around the interior ones, and the two
  boundary y-values (the first and the second \<open>f\<close> value) around the interior
  ones.
\<close>

definition knot_x :: "real list \<Rightarrow> string list \<Rightarrow> real list \<Rightarrow> real list" where
  "knot_x xs keys val =
     (xs ! 0 - global_border) # tagged CHR ''x'' keys val @ [last xs + global_border]"

definition knot_y :: "string list \<Rightarrow> real list \<Rightarrow> real list" where
  "knot_y keys val =
     (tagged CHR ''f'' keys val ! 0) # tagged CHR ''y'' keys val @ [tagged CHR ''f'' keys val ! 1]"

text \<open>
  A stand-in for the spline library, used only to run \<open>log_likleyhood\<close> on
  concrete inputs: the straight line through the first knot with the slope
  of the chord from the first to the last knot.  For two knots (order 0) a
  monotone cubic interpolant is this line.
\<close>

definition chord_spline :: spline where
  "chord_spline =
     \<lparr>spline_pchip_set = (\<lambda>n x f. Some (replicate n ((last f - hd f) / (last x - hd x)))),
      spline_pchip_val = (\<lambda>n x f d ne xe. Some (map (\<lambda>t. hd f + hd d * (t - hd x)) (take ne xe)))\<rparr>"

section \<open>Basic facts\<close>

lemma and_then_Inr [simp]: "and_then (Inr v) f = f v"
  by (simp add: and_then_def)

lemma and_then_Inl [simp]: "and_then (Inl e) f = Inl e"
  by (simp add: and_then_def)

lemma and_then_eq_Inr:
  "and_then m f = Inr r \<longleftrightarrow> (\<exists>v. m = Inr v \<and> f v = Inr r)"
  by (cases m) simp_all

lemma int_incr_eq_Inr: "int_incr n = Inr m \<longleftrightarrow> n < INT_MAX \<and> m = Suc n"
  by (auto simp: int_incr_def)

lemma rd_eq_Inr: "rd arr i = Inr v \<longleftrightarrow> i < length arr \<and> v = arr ! i"
  by (auto simp: rd_def)

lemma store_eq_Inr: "store arr i v = Inr arr' \<longleftrightarrow> i < length arr \<and> arr' = arr[i := Some v]"
  by (auto simp: store_def)

lemma load_eq_Inr: "load arr i = Inr v \<longleftrightarrow> i < length arr \<and> arr ! i = Some v"
  by (auto simp: load_def split: option.splits)

lemma size_add_small: "a + b < 2 ^ 64 \<Longrightarrow> size_add a b = a + b"
  by (simp add: size_add_def)

lemma size_mul_small: "a * b < 2 ^ 64 \<Longrightarrow> size_mul a b = a * b"
  by (simp add: size_mul_def)

lemma wrap_sub:
  fixes a b N :: nat
  assumes "b \<le> a" "a < N"
  shows "(a mod N + N - b mod N) mod N = a - b"
proof -
  have "a mod N = a" "b mod N = b" using assms by simp_all
  moreover have "a + N - b = (a - b) + N" using assms by simp
  moreover have "a - b < N" using assms by simp
  ultimately show ?thesis by (simp only: mod_add_self2 mod_less)
qed

lemma size_sub_small: "b \<le> a \<Longrightarrow> a < 2 ^ 64 \<Longrightarrow> size_sub a b = a - b"
  unfolding size_sub_def by (rule wrap_sub)

lemma wrap_sub_neg:
  fixes a b N :: nat
  assumes "a < b" "b < N"
  shows "(a mod N + N - b mod N) mod N = N - (b - a)"
proof -
  have "a mod N = a" "b mod N = b" using assms by simp_all
  moreover have "a + N - b = N - (b - a)" using assms by simp
  moreover have "N - (b - a) < N" using assms by simp
  ultimately show ?thesis by (simp only: mod_less)
qed

lemma wrap_mul8:
  fixes N k :: nat
  assumes "0 < k" "8 * k \<le> N"
  shows "(8 * (N - k)) mod N = N - 8 * k"
proof -
  have "8 * (N - k) = (N - 8 * k) + 7 * N" using assms by simp
  moreover have "N - 8 * k < N" using assms by simp
  ultimately show ?thesis by (simp only: mod_mult_self1 mod_less)
qed

lemma malloc_doubles_small: "n < 2 ^ 60 \<Longrightarrow> malloc_doubles n = replicate n None"
  by (simp add: malloc_doubles_def size_mul_def PTRDIFF_MAX_def Let_def)

lemma malloc_doubles_None: "k < length (malloc_doubles m) \<Longrightarrow> malloc_doubles m ! k = None"
  by (simp add: malloc_doubles_def Let_def split: if_splits)

lemma load_block_map_Some: "n = length vs \<Longrightarrow> load_block (map Some vs) n = Inr vs"
  by (auto simp: load_block_def comp_def)

lemma store_block_eq_Inr:
  "store_block arr vs = Inr arr' \<longleftrightarrow>
   length vs \<le> length arr \<and> arr' = map Some vs @ drop (length vs) arr"
  by (auto simp: store_block_def)

lemma store_block_again:
  assumes "store_block arr vs = Inr arr'"
  shows "store_block arr' vs = Inr arr'"
  using assms by (auto simp: store_block_def split: if_splits)

lemma store_block_length:
  "store_block arr vs = Inr arr' \<Longrightarrow> length arr' = length arr"
  by (auto simp: store_block_def split: if_splits)

lemma store_block_full:
  "length vs = length arr \<Longrightarrow> store_block arr vs = Inr (map Some vs)"
  by (simp add: store_block_def)

lemma replicate_numeral_unfold: "replicate (numeral k) x = x # replicate (pred_numeral k) x"
  by (simp add: numeral_eq_Suc)

lemma sorted_first_Min:
  assumes "sorted xs" "xs \<noteq> []"
  shows "xs ! 0 = Min (set xs)"
proof -
  obtain a as where xs: "xs = a # as" using assms(2) by (cases xs) auto
  with assms(1) have "\<forall>y\<in>set xs. a \<le> y" by auto
  then have "Min (set xs) = a" using xs by (intro Min_eqI) auto
  then show ?thesis using xs by simp
qed

lemma sorted_last_Max:
  assumes "sorted xs" "xs \<noteq> []"
  shows "last xs = Max (set xs)"
proof -
  have "y \<le> last xs" if "y \<in> set xs" for y
  proof -
    from that obtain i where i: "i < length xs" "y = xs ! i" by (auto simp: in_set_conv_nth)
    then have "xs ! i \<le> xs ! (length xs - 1)"
      using assms by (intro sorted_nth_mono) auto
    then show ?thesis using i assms(2) by (simp add: last_conv_nth)
  qed
  then have "Max (set xs) = last xs" using assms(2) by (intro Max_eqI) auto
  then show ?thesis by simp
qed

lemma cells_eqI:
  assumes "length cs = n + 2" "length zs = n"
    and "cs ! 0 = Some a" and "cs ! (n + 1) = Some b"
    and "\<forall>k. 1 \<le> k \<and> k \<le> n \<longrightarrow> cs ! k = Some (zs ! (k - 1))"
  shows "cs = map Some (a # zs @ [b])"
proof (rule nth_equalityI)
  show "length cs = length (map Some (a # zs @ [b]))" using assms(1,2) by simp
next
  fix i assume "i < length cs"
  then have i: "i < n + 2" using assms(1) by simp
  then have len: "i < length (a # zs @ [b])" using assms(2) by simp
  have m: "map Some (a # zs @ [b]) ! i = Some ((a # zs @ [b]) ! i)"
    using len by (rule nth_map)
  consider "i = 0" | "1 \<le> i \<and> i \<le> n" | "i = n + 1" using i by linarith
  then show "cs ! i = map Some (a # zs @ [b]) ! i"
  proof cases
    case 1
    then show ?thesis using assms(3) by simp
  next
    case 2
    then have "i \<noteq> 0" "i - 1 < length zs" using assms(2) by auto
    then have "(a # zs @ [b]) ! i = zs ! (i - 1)"
      by (simp add: nth_Cons' nth_append)
    moreover have "cs ! i = Some (zs ! (i - 1))" using assms(5) 2 by blast
    ultimately show ?thesis using m by simp
  next
    case 3
    then have "(a # zs @ [b]) ! i = b"
      using assms(2) by (simp add: nth_append)
    moreover have "cs ! i = Some b" using assms(4) 3 by simp
    ultimately show ?thesis using m by simp
  qed
qed

lemma c_pow_pos: "0 < b \<Longrightarrow> c_pow b e = Inr (b powr e)"
  by (simp add: c_pow_def)

lemma c_pow_two: "c_pow u 2 = Inr (u\<^sup>2)"
  by (cases "0 < u"; cases "u = 0") (simp_all add: c_pow_def power_int_def)

lemma log10_100: "log 10 (100::real) = 2"
proof -
  have "log 10 ((10::real) ^ 2) = real 2" by (rule log_pow_cancel) simp_all
  then show ?thesis by simp
qed

section \<open>\<open>init_globals\<close> establishes the Ready state\<close>

lemma init_globals_loop_copies:
  assumes "init_globals_loop x y len i gx gy = Inr (gx', gy')"
    and "i \<le> len" and "i \<le> INT_MAX"
    and "length gx = len" and "length gy = len"
    and "i \<le> length x" and "i \<le> length y"
    and "take i gx = map Some (take i x)" and "take i gy = map Some (take i y)"
  shows "gx' = map Some (take len x) \<and> gy' = map Some (take len y) \<and>
         len \<le> length x \<and> len \<le> length y \<and> len \<le> INT_MAX"
  using assms
proof (induction x y len i gx gy rule: init_globals_loop.induct)
  case (1 x y len i gx gy)
  show ?case
  proof (cases "i < len")
    case True
    from "1.prems"(1) True obtain i' where
      ix: "i < length x" and iy: "i < length y" and
      inc: "int_incr i = Inr i'" and
      rest: "init_globals_loop x y len i' (gx[i := Some (x ! i)]) (gy[i := Some (y ! i)]) = Inr (gx', gy')"
      by (subst (asm) init_globals_loop.simps)
         (auto simp: and_then_eq_Inr rd_eq_Inr store_eq_Inr)
    from inc have i': "i' = Suc i" "i' \<le> INT_MAX" by (auto simp: int_incr_eq_Inr)
    have tx: "take i' (gx[i := Some (x ! i)]) = map Some (take i' x)"
      using True ix "1.prems"(4,8) unfolding i'(1)
      by (simp add: take_Suc_conv_app_nth)
    have ty: "take i' (gy[i := Some (y ! i)]) = map Some (take i' y)"
      using True iy "1.prems"(5,9) unfolding i'(1)
      by (simp add: take_Suc_conv_app_nth)
    have rdx: "rd x i = Inr (x ! i)" using ix by (simp add: rd_def)
    have stx: "store gx i (x ! i) = Inr (gx[i := Some (x ! i)])"
      using True "1.prems"(4) by (simp add: store_def)
    have rdy: "rd y i = Inr (y ! i)" using iy by (simp add: rd_def)
    have sty: "store gy i (y ! i) = Inr (gy[i := Some (y ! i)])"
      using True "1.prems"(5) by (simp add: store_def)
    show ?thesis
      using True ix iy i' "1.prems"(4,5)
      by (intro "1.IH"[OF True rdx stx rdy sty inc rest] tx ty) simp_all
  next
    case False
    then have "i = len" using "1.prems"(2) by simp
    moreover have "gx' = gx" "gy' = gy"
      using "1.prems"(1) False by (subst (asm) init_globals_loop.simps, simp)+
    ultimately show ?thesis using "1.prems" by simp
  qed
qed

lemma init_globals_loop_len:
  assumes "init_globals_loop x y len i gx gy = Inr r" and "i \<le> INT_MAX"
  shows "len \<le> INT_MAX"
  using assms
proof (induction x y len i gx gy rule: init_globals_loop.induct)
  case (1 x y len i gx gy)
  show ?case
  proof (cases "i < len")
    case True
    from "1.prems"(1) True obtain xi gx1 yi gy1 i' where
      a: "rd x i = Inr xi" and b: "store gx i xi = Inr gx1" and
      c: "rd y i = Inr yi" and d: "store gy i yi = Inr gy1" and
      inc: "int_incr i = Inr i'" and
      rest: "init_globals_loop x y len i' gx1 gy1 = Inr r"
      by (subst (asm) init_globals_loop.simps) (auto simp: and_then_eq_Inr)
    from inc have "i' \<le> INT_MAX" by (auto simp: int_incr_eq_Inr)
    then show ?thesis by (rule "1.IH"[OF True a b c d inc rest])
  next
    case False
    with "1.prems"(2) show ?thesis by simp
  qed
qed

lemma init_globals_ready:
  assumes "init_globals x y len n = Inr g" and "n + 2 \<le> INT_MAX"
  shows "ready (take len x) (take len y) n g \<and> len \<le> length x \<and> len \<le> length y \<and>
         g_pchip g = \<lparr>pb_d = replicate (n + 2) None, pb_out = replicate len None\<rparr>"
proof -
  from assms(1) obtain gx gy where
    loop: "init_globals_loop x y len 0 (malloc_doubles len) (malloc_doubles len) = Inr (gx, gy)"
    and g: "g = \<lparr>g_data = \<lparr>gd_x = gx, gd_y = gy, gd_len = len, gd_order = n\<rparr>,
          g_pchip = \<lparr>pb_d = malloc_doubles (size_add n 2), pb_out = malloc_doubles len\<rparr>\<rparr>"
    by (auto simp: init_globals_def and_then_eq_Inr)
  have len: "len \<le> INT_MAX" using loop by (rule init_globals_loop_len) simp
  then have m: "malloc_doubles len = replicate len None"
    by (intro malloc_doubles_small) (simp add: INT_MAX_def)
  have "size_add n 2 = n + 2" using assms(2) by (intro size_add_small) (simp add: INT_MAX_def)
  then have d: "malloc_doubles (size_add n 2) = replicate (n + 2) None"
    using assms(2) by (simp add: malloc_doubles_small INT_MAX_def)
  from init_globals_loop_copies[OF loop] m
  have c: "gx = map Some (take len x)" "gy = map Some (take len y)"
    "len \<le> length x" "len \<le> length y"
    by simp_all
  show ?thesis
    using c len assms(2) by (simp add: g ready_def dataset_def m d min_absorb2)
qed

section \<open>The decoding loop\<close>

subsection \<open>Tagged values of a prefix\<close>

lemma tagged_Nil [simp]: "tagged c [] val = []" "tagged c keys [] = []"
  by (simp_all add: tagged_def)

lemma tagged_take_Suc:
  assumes "j < length keys" "j < length val"
  shows "tagged c (take (Suc j) keys) (take (Suc j) val) =
         tagged c (take j keys) (take j val) @ (if leading_char (keys ! j) = c then [val ! j] else [])"
  using assms by (simp add: tagged_def take_Suc_conv_app_nth zip_append)

lemma tagged_take_Suc_other:
  assumes "j < length keys" "leading_char (keys ! j) \<noteq> c"
  shows "tagged c (take (Suc j) keys) (take (Suc j) val) = tagged c (take j keys) (take j val)"
proof (cases "j < length val")
  case True
  then show ?thesis using assms by (simp add: tagged_take_Suc)
next
  case False
  then have "take (Suc j) (zip keys val) = take j (zip keys val)" by simp
  then show ?thesis by (simp add: tagged_def take_zip)
qed

lemma length_tagged_take:
  "length (tagged c (take j keys) (take j val)) \<le> length (tagged c keys val)"
proof -
  let ?P = "\<lambda>kv. leading_char (fst kv) = c"
  have "filter ?P (zip keys val) = filter ?P (take j (zip keys val)) @ filter ?P (drop j (zip keys val))"
    by (simp flip: filter_append)
  then have "length (filter ?P (take j (zip keys val))) \<le> length (filter ?P (zip keys val))"
    by simp
  then show ?thesis by (simp add: tagged_def take_zip)
qed

lemma length_tagged_take_Suc:
  assumes "j < length keys" "j < length val" "leading_char (keys ! j) = c"
  shows "Suc (length (tagged c (take j keys) (take j val))) \<le> length (tagged c keys val)"
  using length_tagged_take[of c "Suc j" keys val] assms by (simp add: tagged_take_Suc)

lemma length_tagged_le: "length (tagged c keys val) \<le> length keys"
proof -
  have "length (tagged c keys val) \<le> length (zip keys val)"
    unfolding tagged_def by (simp del: length_zip)
  then show ?thesis by simp
qed

subsection \<open>One iteration\<close>

lemma switch_in_range:
  "kwargs2coef_switch gd keys val i st = Inr st' \<Longrightarrow> i < length keys"
  by (auto simp: kwargs2coef_switch_def and_then_eq_Inr rd_eq_Inr)

lemma switch_x:
  assumes "kwargs2coef_switch gd keys val i st = Inr st'"
    and "leading_char (keys ! i) = CHR ''x''"
  shows "i < length val \<and> x_loc st < length (coef_x (dec_coef st)) \<and>
         st' = st\<lparr>dec_coef := (dec_coef st)\<lparr>coef_x := (coef_x (dec_coef st))[x_loc st := Some (val ! i)]\<rparr>,
                  x_loc := Suc (x_loc st)\<rparr>"
  using assms
  by (auto simp: kwargs2coef_switch_def and_then_eq_Inr rd_eq_Inr store_eq_Inr int_incr_eq_Inr Let_def)

lemma switch_y:
  assumes "kwargs2coef_switch gd keys val i st = Inr st'"
    and "leading_char (keys ! i) = CHR ''y''"
  shows "i < length val \<and> y_loc st < length (coef_y (dec_coef st)) \<and>
         st' = st\<lparr>dec_coef := (dec_coef st)\<lparr>coef_y := (coef_y (dec_coef st))[y_loc st := Some (val ! i)]\<rparr>,
                  y_loc := Suc (y_loc st)\<rparr>"
  using assms
  by (auto simp: kwargs2coef_switch_def and_then_eq_Inr rd_eq_Inr store_eq_Inr int_incr_eq_Inr Let_def)

lemma switch_a:
  assumes "kwargs2coef_switch gd keys val i st = Inr st'"
    and "leading_char (keys ! i) = CHR ''a''"
  shows "i < length val \<and> a_loc st < length (coef_a (dec_coef st)) \<and>
         st' = st\<lparr>dec_coef := (dec_coef st)\<lparr>coef_a := (coef_a (dec_coef st))[a_loc st := Some (val ! i)]\<rparr>,
                  a_loc := Suc (a_loc st)\<rparr>"
  using assms
  by (auto simp: kwargs2coef_switch_def and_then_eq_Inr rd_eq_Inr store_eq_Inr int_incr_eq_Inr Let_def)

lemma switch_f_first:
  assumes "kwargs2coef_switch gd keys val i st = Inr st'"
    and "leading_char (keys ! i) = CHR ''f''" and "f_loc st = 0"
  shows "i < length val \<and> 0 < length (coef_x (dec_coef st)) \<and> 0 < length (coef_y (dec_coef st)) \<and>
         (\<exists>x0. load (gd_x gd) 0 = Inr x0 \<and>
         st' = st\<lparr>dec_coef := (dec_coef st)\<lparr>coef_x := (coef_x (dec_coef st))[0 := Some (x0 - global_border)],
                                              coef_y := (coef_y (dec_coef st))[0 := Some (val ! i)]\<rparr>,
                  f_loc := Suc 0\<rparr>)"
  using assms
  by (auto simp: kwargs2coef_switch_def and_then_eq_Inr rd_eq_Inr store_eq_Inr int_incr_eq_Inr Let_def)

lemma switch_f_later:
  assumes "kwargs2coef_switch gd keys val i st = Inr st'"
    and "leading_char (keys ! i) = CHR ''f''" and "f_loc st \<noteq> 0"
  shows "i < length val \<and> size_add (gd_order gd) 1 < length (coef_x (dec_coef st)) \<and>
         size_add (gd_order gd) 1 < length (coef_y (dec_coef st)) \<and>
         (\<exists>xn. load (gd_x gd) (size_sub (gd_len gd) 1) = Inr xn \<and>
         st' = st\<lparr>dec_coef := (dec_coef st)
                   \<lparr>coef_x := (coef_x (dec_coef st))[size_add (gd_order gd) 1 := Some (xn + global_border)],
                    coef_y := (coef_y (dec_coef st))[size_add (gd_order gd) 1 := Some (val ! i)]\<rparr>\<rparr>)"
  using assms
  by (auto simp: kwargs2coef_switch_def and_then_eq_Inr rd_eq_Inr store_eq_Inr int_incr_eq_Inr Let_def)

lemma switch_other:
  assumes "i < length keys"
    and "leading_char (keys ! i) \<notin> {CHR ''x'', CHR ''y'', CHR ''a'', CHR ''f''}"
  shows "kwargs2coef_switch gd keys val i st = Inr st"
  using assms by (simp add: kwargs2coef_switch_def rd_def Let_def)

lemma load_dataset_first:
  "load (gd_x (dataset xs ys n)) 0 = Inr x0 \<Longrightarrow> xs \<noteq> [] \<and> x0 = xs ! 0"
  by (auto simp: dataset_def load_eq_Inr)

lemma load_dataset_last:
  assumes "load (gd_x (dataset xs ys n)) (size_sub (gd_len (dataset xs ys n)) 1) = Inr xn"
    and "length xs < 2 ^ 64"
  shows "xs \<noteq> [] \<and> xn = last xs"
proof (cases "xs = []")
  case True
  with assms show ?thesis by (simp add: dataset_def load_eq_Inr)
next
  case False
  then have "size_sub (length xs) 1 = length xs - 1"
    using assms(2) by (intro size_sub_small) (auto simp: Suc_le_eq)
  with assms False show ?thesis
    by (auto simp: dataset_def load_eq_Inr last_conv_nth)
qed

subsection \<open>The size of the coefficient block\<close>

lemma a_capacity_small:
  assumes "2 * n + 2 \<le> len" "len < 2 ^ 60"
  shows "a_capacity n len = len - (2 * n + 2)"
proof -
  have "size_mul 2 n = 2 * n" using assms by (intro size_mul_small) simp
  moreover have "size_add (2 * n) 2 = 2 * n + 2" using assms by (intro size_add_small) simp
  moreover have "size_sub len (2 * n + 2) = len - (2 * n + 2)"
    using assms by (intro size_sub_small) simp_all
  moreover have "len - (2 * n + 2) < 2 ^ 60" using assms by simp
  ultimately show ?thesis by (simp add: a_capacity_def malloc_doubles_small)
qed

lemma a_capacity_wrapped:
  assumes "len < 2 * n + 2" "n + 2 \<le> INT_MAX"
  shows "a_capacity n len = 0"
proof -
  define k where "k = 2 * n + 2 - len"
  have k: "0 < k" "k \<le> 2 ^ 32"
    using assms by (simp_all add: k_def INT_MAX_def)
  have "size_mul 2 n = 2 * n" using assms by (intro size_mul_small) (simp add: INT_MAX_def)
  moreover have "size_add (2 * n) 2 = 2 * n + 2"
    using assms by (intro size_add_small) (simp add: INT_MAX_def)
  moreover have "size_sub len (2 * n + 2) = 2 ^ 64 - k"
    unfolding size_sub_def k_def using assms by (intro wrap_sub_neg) (simp_all add: INT_MAX_def)
  moreover have "size_mul 8 (2 ^ 64 - k) = 2 ^ 64 - 8 * k"
    unfolding size_mul_def using k by (intro wrap_mul8) simp_all
  moreover have "\<not> (2::nat) ^ 64 - 8 * k \<le> PTRDIFF_MAX" using k by (simp add: PTRDIFF_MAX_def)
  ultimately show ?thesis by (simp add: a_capacity_def malloc_doubles_def)
qed

lemma a_capacity_eq:
  assumes "len \<le> INT_MAX" "n + 2 \<le> INT_MAX"
  shows "a_capacity n len = len - (2 * n + 2)"
proof (cases "len < 2 * n + 2")
  case True
  then show ?thesis using assms by (simp add: a_capacity_wrapped)
next
  case False
  then show ?thesis using assms by (simp add: a_capacity_small INT_MAX_def)
qed

subsection \<open>The invariant\<close>

lemma kwargs2coef_loop_rule:
  assumes "kwargs2coef_loop gd keys val len i st = Inr st'"
    and "i \<le> len"
    and "P i st"
    and step: "\<And>j s s'. j < len \<Longrightarrow> P j s \<Longrightarrow> kwargs2coef_switch gd keys val j s = Inr s' \<Longrightarrow> P (Suc j) s'"
  shows "P len st'"
  using assms
proof (induction gd keys val len i st rule: kwargs2coef_loop.induct)
  case (1 gd keys val len i st)
  show ?case
  proof (cases "i < len")
    case True
    from "1.prems"(1) True obtain s1 i' where
      sw: "kwargs2coef_switch gd keys val i st = Inr s1" and
      inc: "int_incr i = Inr i'" and
      rest: "kwargs2coef_loop gd keys val len i' s1 = Inr st'"
      by (subst (asm) kwargs2coef_loop.simps) (auto simp: and_then_eq_Inr)
    from inc have i': "i' = Suc i" by (simp add: int_incr_eq_Inr)
    have "i' \<le> len" using True i' by simp
    moreover have "P i' s1" unfolding i' by (rule "1.prems"(4)[OF True "1.prems"(3) sw])
    ultimately show ?thesis
      by (rule "1.IH"[OF True sw inc rest]) (rule "1.prems"(4))
  next
    case False
    with "1.prems" show ?thesis
      by (subst (asm) kwargs2coef_loop.simps) simp
  qed
qed

lemma decoded_upto_step:
  assumes inv: "decoded_upto xs n acap keys val j st"
    and sw: "kwargs2coef_switch (dataset xs ys n) keys val j st = Inr st'"
    and n: "n + 2 < 2 ^ 64" and xs: "length xs < 2 ^ 64"
  shows "decoded_upto xs n acap keys val (Suc j) st'"
proof -
  have jk: "j < length keys" using sw by (rule switch_in_range)
  have sa: "size_add n 1 = n + 1" "size_add n (Suc 0) = Suc n"
    using n by (simp_all add: size_add_small)
  consider (x) "leading_char (keys ! j) = CHR ''x''"
    | (y) "leading_char (keys ! j) = CHR ''y''"
    | (a) "leading_char (keys ! j) = CHR ''a''"
    | (f0) "leading_char (keys ! j) = CHR ''f''" "f_loc st = 0"
    | (f1) "leading_char (keys ! j) = CHR ''f''" "f_loc st \<noteq> 0"
    | (other) "leading_char (keys ! j) \<notin> {CHR ''x'', CHR ''y'', CHR ''a'', CHR ''f''}"
    by auto
  then show ?thesis
  proof cases
    case x
    from switch_x[OF sw x] inv jk x show ?thesis
      by (auto simp: decoded_upto_def Let_def tagged_take_Suc nth_list_update nth_append)
  next
    case y
    from switch_y[OF sw y] inv jk y show ?thesis
      by (auto simp: decoded_upto_def Let_def tagged_take_Suc nth_list_update nth_append)
  next
    case a
    from switch_a[OF sw a] inv jk a show ?thesis
      by (auto simp: decoded_upto_def Let_def tagged_take_Suc nth_list_update nth_append)
  next
    case f0
    from switch_f_first[OF sw f0] inv jk f0 show ?thesis
      by (auto simp: decoded_upto_def Let_def tagged_take_Suc nth_list_update nth_append
               dest!: load_dataset_first split: if_splits)
  next
    case f1
    from switch_f_later[OF sw f1] obtain xn where
      *: "j < length val" "load (gd_x (dataset xs ys n)) (size_sub (gd_len (dataset xs ys n)) 1) = Inr xn"
         "st' = st\<lparr>dec_coef := (dec_coef st)
                   \<lparr>coef_x := (coef_x (dec_coef st))[n + 1 := Some (xn + global_border)],
                    coef_y := (coef_y (dec_coef st))[n + 1 := Some (val ! j)]\<rparr>\<rparr>"
      by (auto simp: sa dataset_def)
    from load_dataset_last[OF *(2) xs] have xn: "xn = last xs" "xs \<noteq> []" by simp_all
    have F: "0 < length (tagged CHR ''f'' (take j keys) (take j val))"
      using inv f1(2) by (auto simp: decoded_upto_def Let_def split: if_splits)
    have T: "tagged CHR ''x'' (take (Suc j) keys) (take (Suc j) val) = tagged CHR ''x'' (take j keys) (take j val)"
      "tagged CHR ''y'' (take (Suc j) keys) (take (Suc j) val) = tagged CHR ''y'' (take j keys) (take j val)"
      "tagged CHR ''a'' (take (Suc j) keys) (take (Suc j) val) = tagged CHR ''a'' (take j keys) (take j val)"
      "tagged CHR ''f'' (take (Suc j) keys) (take (Suc j) val) = tagged CHR ''f'' (take j keys) (take j val) @ [val ! j]"
      using f1(1) by (simp_all add: tagged_take_Suc[OF jk *(1)])
    show ?thesis
      using inv F xn unfolding decoded_upto_def Let_def T *(3)
      by (simp add: nth_list_update nth_append)
  next
    case other
    have "st' = st" using sw switch_other[OF jk other] by simp
    moreover have "tagged c (take (Suc j) keys) (take (Suc j) val) = tagged c (take j keys) (take j val)"
      if "c \<in> {CHR ''x'', CHR ''y'', CHR ''a'', CHR ''f''}" for c
      using that other by (intro tagged_take_Suc_other[OF jk]) auto
    ultimately show ?thesis using inv
      by (simp add: decoded_upto_def)
  qed
qed

lemma start_decoded:
  assumes "n + 2 < 2 ^ 60"
  shows "decoded_upto xs n (a_capacity n len) keys val 0 (kwargs2coef_start (dataset xs ys n) len)"
proof -
  have "size_add n 2 = n + 2" using assms by (intro size_add_small) simp
  then have m: "malloc_doubles (size_add n 2) = replicate (n + 2) None"
    using assms by (simp add: malloc_doubles_small)
  show ?thesis
    unfolding decoded_upto_def kwargs2coef_start_def Let_def
    by (simp add: dataset_def m a_capacity_def malloc_doubles_None
        del: replicate_Suc replicate.simps)
qed

lemma run_decoded_prefix:
  assumes "kwargs2coef_loop (dataset xs ys n) keys val j 0 (kwargs2coef_start (dataset xs ys n) len) = Inr st"
    and "n + 2 \<le> INT_MAX" and "length xs \<le> INT_MAX"
  shows "decoded_upto xs n (a_capacity n len) keys val j st"
proof -
  have n: "n + 2 < 2 ^ 60" "n + 2 < 2 ^ 64" and xs: "length xs < 2 ^ 64"
    using assms(2,3) by (simp_all add: INT_MAX_def)
  show ?thesis
  proof (rule kwargs2coef_loop_rule[OF assms(1), where P = "decoded_upto xs n (a_capacity n len) keys val"])
    show "decoded_upto xs n (a_capacity n len) keys val 0 (kwargs2coef_start (dataset xs ys n) len)"
      by (rule start_decoded[OF n(1)])
  next
    fix i s s'
    assume "decoded_upto xs n (a_capacity n len) keys val i s"
      and "kwargs2coef_switch (dataset xs ys n) keys val i s = Inr s'"
    then show "decoded_upto xs n (a_capacity n len) keys val (Suc i) s'"
      by (rule decoded_upto_step[OF _ _ n(2) xs])
  qed simp
qed

lemma run_decoded:
  assumes "kwargs2coef_run (dataset xs ys n) keys val len = Inr st"
    and "n + 2 \<le> INT_MAX" and "length xs \<le> INT_MAX"
  shows "decoded_upto xs n (a_capacity n len) keys val len st"
  using assms by (simp add: kwargs2coef_run_def run_decoded_prefix)

lemma kwargs2coef_eq_Inr:
  "kwargs2coef gd keys val len = Inr c \<longleftrightarrow>
   (\<exists>st. kwargs2coef_run gd keys val len = Inr st \<and> c = dec_coef st)"
  by (auto simp: kwargs2coef_def and_then_eq_Inr)

lemma kwargs2coef_decoded:
  assumes "kwargs2coef (dataset xs ys n) keys val len = Inr c"
    and "length keys = len" and "length val = len"
    and "n + 2 \<le> INT_MAX" and "length xs \<le> INT_MAX"
  shows "\<exists>st. c = dec_coef st \<and> kwargs2coef_run (dataset xs ys n) keys val len = Inr st \<and>
              decoded_upto xs n (a_capacity n len) keys val (length keys) st"
  using assms run_decoded[of xs ys n keys val len] by (auto simp: kwargs2coef_eq_Inr)

lemma kwargs2coef_loop_len:
  assumes "kwargs2coef_loop gd keys val len i st = Inr st'" and "i \<le> INT_MAX"
  shows "len \<le> INT_MAX"
  using assms
proof (induction gd keys val len i st rule: kwargs2coef_loop.induct)
  case (1 gd keys val len i st)
  show ?case
  proof (cases "i < len")
    case True
    from "1.prems"(1) True obtain s1 i' where
      sw: "kwargs2coef_switch gd keys val i st = Inr s1" and
      inc: "int_incr i = Inr i'" and
      rest: "kwargs2coef_loop gd keys val len i' s1 = Inr st'"
      by (subst (asm) kwargs2coef_loop.simps) (auto simp: and_then_eq_Inr)
    from inc have "i' \<le> INT_MAX" by (auto simp: int_incr_eq_Inr)
    then show ?thesis by (rule "1.IH"[OF True sw inc rest])
  next
    case False
    with "1.prems"(2) show ?thesis by simp
  qed
qed

lemma kwargs2coef_len:
  assumes "kwargs2coef gd keys val len = Inr c"
  shows "len \<le> INT_MAX"
proof -
  from assms obtain st where "kwargs2coef_run gd keys val len = Inr st"
    by (auto simp: kwargs2coef_eq_Inr)
  then show ?thesis
    unfolding kwargs2coef_run_def by (rule kwargs2coef_loop_len) simp
qed

lemma kwargs2coef_loop_prefix:
  assumes "kwargs2coef_loop gd keys val len i st = Inr st'" and "i \<le> j" and "j \<le> len"
  shows "\<exists>s. kwargs2coef_loop gd keys val j i st = Inr s"
  using assms
proof (induction gd keys val len i st rule: kwargs2coef_loop.induct)
  case (1 gd keys val len i st)
  show ?case
  proof (cases "i < j")
    case True
    then have il: "i < len" using "1.prems"(3) by simp
    from "1.prems"(1) il obtain s1 i' where
      sw: "kwargs2coef_switch gd keys val i st = Inr s1" and
      inc: "int_incr i = Inr i'" and
      rest: "kwargs2coef_loop gd keys val len i' s1 = Inr st'"
      by (subst (asm) kwargs2coef_loop.simps) (auto simp: and_then_eq_Inr)
    from inc have i': "i' = Suc i" by (simp add: int_incr_eq_Inr)
    have "\<exists>s. kwargs2coef_loop gd keys val j i' s1 = Inr s"
      using True i' by (intro "1.IH"[OF il sw inc rest] "1.prems"(3)) simp
    then show ?thesis
      using True sw inc by (subst kwargs2coef_loop.simps) simp
  next
    case False
    then show ?thesis by (subst kwargs2coef_loop.simps) simp
  qed
qed

subsection \<open>Decodings that stay within their blocks\<close>

lemma switch_total:
  assumes inv: "decoded_upto xs n acap keys val j st"
    and j: "j < length keys" "j < length val"
    and sz: "n + 2 \<le> INT_MAX" "length xs \<le> INT_MAX" "length keys \<le> INT_MAX"
    and bx: "length (tagged CHR ''x'' keys val) \<le> n + 1"
    and bY: "length (tagged CHR ''y'' keys val) \<le> n + 1"
    and ba: "length (tagged CHR ''a'' keys val) \<le> acap"
    and xs: "xs \<noteq> []"
  shows "\<exists>st'. kwargs2coef_switch (dataset xs ys n) keys val j st = Inr st'"
proof -
  have sa: "size_add n 1 = n + 1" using sz(1) by (intro size_add_small) (simp add: INT_MAX_def)
  have ss: "size_sub (length xs) 1 = length xs - 1"
    using sz(2) xs by (intro size_sub_small) (simp_all add: INT_MAX_def Suc_le_eq)
  have lx: "length (coef_x (dec_coef st)) = n + 2" and ly: "length (coef_y (dec_coef st)) = n + 2"
    and la: "length (coef_a (dec_coef st)) = acap"
    using inv by (simp_all add: decoded_upto_def Let_def)
  have fl: "f_loc st \<le> 1" using inv by (simp add: decoded_upto_def Let_def)
  have L: "load (map Some xs) 0 = Inr (xs ! 0)" "load (map Some xs) (length xs - 1) = Inr (last xs)"
    using xs by (simp_all add: load_def last_conv_nth)
  consider (x) "leading_char (keys ! j) = CHR ''x''"
    | (y) "leading_char (keys ! j) = CHR ''y''"
    | (a) "leading_char (keys ! j) = CHR ''a''"
    | (f) "leading_char (keys ! j) = CHR ''f''"
    | (other) "leading_char (keys ! j) \<notin> {CHR ''x'', CHR ''y'', CHR ''a'', CHR ''f''}"
    by auto
  then show ?thesis
  proof cases
    case x
    have "x_loc st = Suc (length (tagged CHR ''x'' (take j keys) (take j val)))"
      using inv by (simp add: decoded_upto_def Let_def)
    with length_tagged_take_Suc[OF j x] bx sz(1) have "x_loc st < n + 2" "x_loc st < INT_MAX" by simp_all
    then show ?thesis using x j lx
      by (simp add: kwargs2coef_switch_def rd_def store_def int_incr_def Let_def)
  next
    case y
    have "y_loc st = Suc (length (tagged CHR ''y'' (take j keys) (take j val)))"
      using inv by (simp add: decoded_upto_def Let_def)
    with length_tagged_take_Suc[OF j y] bY sz(1) have "y_loc st < n + 2" "y_loc st < INT_MAX" by simp_all
    then show ?thesis using y j ly
      by (simp add: kwargs2coef_switch_def rd_def store_def int_incr_def Let_def)
  next
    case a
    have "a_loc st = length (tagged CHR ''a'' (take j keys) (take j val))"
      using inv by (simp add: decoded_upto_def Let_def)
    with length_tagged_take_Suc[OF j a] ba length_tagged_le[of "CHR ''a''" keys val] sz(3)
    have "a_loc st < acap" "a_loc st < INT_MAX" by simp_all
    then show ?thesis using a j la
      by (simp add: kwargs2coef_switch_def rd_def store_def int_incr_def Let_def)
  next
    case f
    show ?thesis using f j lx ly L sa ss fl
      by (simp add: kwargs2coef_switch_def rd_def store_def int_incr_def Let_def dataset_def INT_MAX_def)
  next
    case other
    then show ?thesis using switch_other[OF j(1) other] by simp
  qed
qed

lemma kwargs2coef_loop_total:
  assumes "P i st" and "i \<le> len" and "len \<le> INT_MAX"
    and step: "\<And>j s. j < len \<Longrightarrow> P j s \<Longrightarrow>
                 \<exists>s'. kwargs2coef_switch gd keys val j s = Inr s' \<and> P (Suc j) s'"
  shows "\<exists>st'. kwargs2coef_loop gd keys val len i st = Inr st' \<and> P len st'"
  using assms
proof (induction gd keys val len i st rule: kwargs2coef_loop.induct)
  case (1 gd keys val len i st)
  show ?case
  proof (cases "i < len")
    case True
    from "1.prems"(4)[OF True "1.prems"(1)] obtain s1 where
      sw: "kwargs2coef_switch gd keys val i st = Inr s1" and p: "P (Suc i) s1" by blast
    have inc: "int_incr i = Inr (Suc i)" using True "1.prems"(3) by (simp add: int_incr_def)
    have "\<exists>st'. kwargs2coef_loop gd keys val len (Suc i) s1 = Inr st' \<and> P len st'"
      using True by (intro "1.IH"[OF True sw inc p _ "1.prems"(3)] "1.prems"(4)) simp_all
    then show ?thesis
      using True sw inc by (subst kwargs2coef_loop.simps) simp
  next
    case False
    with "1.prems" show ?thesis
      by (subst kwargs2coef_loop.simps) simp
  qed
qed

lemma run_total:
  assumes len: "length keys = len" "length val = len" "len \<le> INT_MAX"
    and sz: "n + 2 \<le> INT_MAX" "length xs \<le> INT_MAX"
    and bx: "length (tagged CHR ''x'' keys val) \<le> n + 1"
    and bY: "length (tagged CHR ''y'' keys val) \<le> n + 1"
    and ba: "length (tagged CHR ''a'' keys val) \<le> a_capacity n len"
    and xs: "xs \<noteq> []"
  shows "\<exists>st. kwargs2coef_run (dataset xs ys n) keys val len = Inr st \<and>
              decoded_upto xs n (a_capacity n len) keys val len st"
  unfolding kwargs2coef_run_def
proof (rule kwargs2coef_loop_total[where P = "decoded_upto xs n (a_capacity n len) keys val"])
  show "decoded_upto xs n (a_capacity n len) keys val 0 (kwargs2coef_start (dataset xs ys n) len)"
    using sz(1) by (intro start_decoded) (simp add: INT_MAX_def)
next
  fix j s assume j: "j < len" and inv: "decoded_upto xs n (a_capacity n len) keys val j s"
  from switch_total[OF inv _ _ sz _ bx bY ba xs, of ys] j len obtain s' where
    sw: "kwargs2coef_switch (dataset xs ys n) keys val j s = Inr s'" by auto
  moreover have "decoded_upto xs n (a_capacity n len) keys val (Suc j) s'"
    using sz by (intro decoded_upto_step[OF inv sw]) (simp_all add: INT_MAX_def)
  ultimately show "\<exists>s'. kwargs2coef_switch (dataset xs ys n) keys val j s = Inr s' \<and>
       decoded_upto xs n (a_capacity n len) keys val (Suc j) s'" by blast
qed (use len in simp_all)

lemma kwargs2coef_well_formed:
  assumes "length keys = len" and "length val = len" and "len \<le> INT_MAX"
    and "n + 2 \<le> INT_MAX" and "length xs \<le> INT_MAX" and "xs \<noteq> []"
    and X: "length (tagged CHR ''x'' keys val) = n"
    and Y: "length (tagged CHR ''y'' keys val) = n"
    and F: "length (tagged CHR ''f'' keys val) = 2"
    and A: "length (tagged CHR ''a'' keys val) = len - (2 * n + 2)"
  shows "kwargs2coef (dataset xs ys n) keys val len =
         Inr \<lparr>coef_x = map Some (knot_x xs keys val), coef_y = map Some (knot_y keys val),
              coef_a = map Some (tagged CHR ''a'' keys val)\<rparr>"
proof -
  have cap: "a_capacity n len = len - (2 * n + 2)" using assms(3,4) by (rule a_capacity_eq)
  from run_total[OF assms(1-5) _ _ _ assms(6), of ys] X Y A cap obtain st where
    run: "kwargs2coef_run (dataset xs ys n) keys val len = Inr st" and
    inv: "decoded_upto xs n (a_capacity n len) keys val len st" by auto
  have T: "take len keys = keys" "take len val = val"
    using assms(1,2) by simp_all
  have Fne: "tagged CHR ''f'' keys val \<noteq> []" "\<not> length (tagged CHR ''f'' keys val) < 2"
    using F by auto
  from Fne(1) have "last (tagged CHR ''f'' keys val) =
      tagged CHR ''f'' keys val ! (length (tagged CHR ''f'' keys val) - 1)"
    by (rule last_conv_nth)
  then have L: "last (tagged CHR ''f'' keys val) = tagged CHR ''f'' keys val ! 1"
    using F by simp
  have shape: "length (coef_x (dec_coef st)) = n + 2" "length (coef_y (dec_coef st)) = n + 2"
    "length (coef_a (dec_coef st)) = len - (2 * n + 2)"
    using inv cap unfolding decoded_upto_def Let_def T by simp_all
  have ends: "coef_x (dec_coef st) ! 0 = Some (xs ! 0 - global_border)"
    "coef_x (dec_coef st) ! (n + 1) = Some (last xs + global_border)"
    "coef_y (dec_coef st) ! 0 = Some (tagged CHR ''f'' keys val ! 0)"
    "coef_y (dec_coef st) ! (n + 1) = Some (tagged CHR ''f'' keys val ! 1)"
    using inv Fne X Y L unfolding decoded_upto_def Let_def T by simp_all
  have inner: "\<forall>k. 1 \<le> k \<and> k \<le> n \<longrightarrow>
        coef_x (dec_coef st) ! k = Some (tagged CHR ''x'' keys val ! (k - 1))"
    "\<forall>k. 1 \<le> k \<and> k \<le> n \<longrightarrow>
        coef_y (dec_coef st) ! k = Some (tagged CHR ''y'' keys val ! (k - 1))"
    "\<forall>k < len - (2 * n + 2).
        coef_a (dec_coef st) ! k = Some (tagged CHR ''a'' keys val ! k)"
    using inv X Y A cap unfolding decoded_upto_def Let_def T by simp_all
  have cx: "coef_x (dec_coef st) = map Some (knot_x xs keys val)"
    unfolding knot_x_def by (rule cells_eqI[OF shape(1) X ends(1,2) inner(1)])
  have cy: "coef_y (dec_coef st) = map Some (knot_y keys val)"
    unfolding knot_y_def by (rule cells_eqI[OF shape(2) Y ends(3,4) inner(2)])
  have ca: "coef_a (dec_coef st) = map Some (tagged CHR ''a'' keys val)"
    using shape(3) A inner(3) by (intro nth_equalityI) simp_all
  have "dec_coef st = \<lparr>coef_x = map Some (knot_x xs keys val), coef_y = map Some (knot_y keys val),
              coef_a = map Some (tagged CHR ''a'' keys val)\<rparr>"
    using cx cy ca by (cases "dec_coef st") simp
  then show ?thesis using run by (simp add: kwargs2coef_def)
qed

section \<open>The series of \<open>t21fg_sims\<close>\<close>

lemma c_pow_nat: "0 < k \<Longrightarrow> c_pow l (real k) = Inr (l ^ k)"
  by (cases "0 < l"; cases "l = 0") (simp_all add: c_pow_def powr_realpow power_int_def)

lemma c_pow_ten: "c_pow 10 e = Inr (10 powr e)"
  by (simp add: c_pow_def)

text \<open>
  For nine coefficients, a frequency \<open>nu > 0\<close> and \<open>d[1]\<close> other than 0, the
  function returns the calibration term plus the sum of
  \<open>10 ^ (d[i] * log10 (nu/75) ^ i)\<close> for \<open>i\<close> from 4 to 8.
\<close>

lemma t21fg_sims_eq:
  assumes "0 < nu" and "length d = 9" and "d ! 1 \<noteq> 0"
  shows "t21fg_sims (map Some d) nu =
         Inr ((\<Sum>i = 4..<9. 10 powr (d ! i * log 10 (nu / 75) ^ i))
              + (nu / 75) powr (d ! 0)
                * (d ! 2 * sin (2 * PI * nu / d ! 1) + d ! 3 * cos (2 * PI * nu / d ! 1)))"
proof -
  have p: "c_pow l 4 = Inr (l ^ 4)" "c_pow l 5 = Inr (l ^ 5)" "c_pow l 6 = Inr (l ^ 6)"
    "c_pow l 7 = Inr (l ^ 7)" "c_pow l 8 = Inr (l ^ 8)" for l
    using c_pow_nat[of 4 l] c_pow_nat[of 5 l] c_pow_nat[of 6 l] c_pow_nat[of 7 l]
      c_pow_nat[of 8 l] by simp_all
  have s: "(\<Sum>i = 4..<9. h i) = h 4 + h 5 + h 6 + h 7 + h (8::nat)" for h :: "nat \<Rightarrow> real"
    by (simp add: numeral_eq_Suc)
  have loop: "t21fg_sims_loop (map Some d) nu 4 0 =
      Inr (\<Sum>i = 4..<9. 10 powr (d ! i * log 10 (nu / 75) ^ i))"
    using assms(1,2) unfolding s
    by (simp add: t21fg_sims_loop.simps load_def c_log10_def p c_pow_ten)
  show ?thesis
    using assms
    by (simp add: t21fg_sims_def loop load_def c_pow_pos c_div_def)
qed

section \<open>The likelihood\<close>

lemma logpdf_eq:
  "logpdf y m = Inr (- 0.5 * ((y - m) / 0.025)\<^sup>2 - ln (sqrt (2 * PI) * 0.025))"
proof -
  have "0 < sqrt (2 * PI) * 0.025" by (simp add: PI_def)
  then show ?thesis
    by (simp add: logpdf_def c_pow_two c_sqrt_def c_log_def PI_def)
qed

lemma t21fg_eq:
  assumes "0 < nu" "5 \<le> length a"
  shows "t21fg (map Some a) nu = Inr (edges_power_law_log a nu)"
proof -
  have "a \<noteq> []" "1 < length a" "2 < length a" "3 < length a" "4 < length a"
    using assms(2) by auto
  then show ?thesis
    using assms(1)
    by (simp add: t21fg_def t21fg_edgesa_def load_def c_pow_pos c_pow_two c_log_def
        edges_power_law_log_def)
qed

lemma log_likleyhood_loop_sum:
  assumes "length ys = length xs" "length out = length xs" "5 \<le> length a"
    and "\<forall>x\<in>set xs. 0 < x" "length xs \<le> INT_MAX" "i \<le> length xs"
  shows "log_likleyhood_loop (dataset xs ys n) (map Some out) (map Some a) i retval =
         Inr (retval + (\<Sum>k = i..<length xs.
               - 0.5 * ((ys ! k - (out ! k + edges_power_law_log a (xs ! k))) / 0.025)\<^sup>2
               - ln (sqrt (2 * PI) * 0.025)))"
  using assms(6)
proof (induction "length xs - i" arbitrary: i retval)
  case 0
  then show ?case
    by (subst log_likleyhood_loop.simps) (simp add: dataset_def)
next
  case (Suc m)
  then have i: "i < length xs" by simp
  then have pos: "0 < xs ! i" using assms(4) by simp
  have inc: "int_incr i = Inr (Suc i)" using i assms(5) by (simp add: int_incr_def)
  have IH: "log_likleyhood_loop (dataset xs ys n) (map Some out) (map Some a) (Suc i) r =
         Inr (r + (\<Sum>k = Suc i..<length xs.
               - 0.5 * ((ys ! k - (out ! k + edges_power_law_log a (xs ! k))) / 0.025)\<^sup>2
               - ln (sqrt (2 * PI) * 0.025)))" for r
    using Suc(2) i by (intro Suc(1)) simp_all
  show ?case
    using i assms(1,2)
    by (subst log_likleyhood_loop.simps)
       (simp add: dataset_def load_def t21fg_eq[OF pos assms(3)] logpdf_eq inc
          IH[unfolded dataset_def] sum.atLeast_Suc_lessThan)
qed

text \<open>
  The value of a call on a proposal vector that meets the schema.
\<close>

lemma log_likleyhood_value:
  assumes "ready xs ys n g" and "xs \<noteq> []" and "\<forall>x\<in>set xs. 0 < x"
    and "length keys = len" and "length val = len" and "len \<le> INT_MAX"
    and "length (tagged CHR ''x'' keys val) = n"
    and "length (tagged CHR ''y'' keys val) = n"
    and "length (tagged CHR ''f'' keys val) = 2"
    and "length (tagged CHR ''a'' keys val) = len - (2 * n + 2)"
    and "5 \<le> length (tagged CHR ''a'' keys val)"
    and "spline_pchip_set lib (n + 2) (knot_x xs keys val) (knot_y keys val) = Some d"
    and "length d = n + 2"
    and "spline_pchip_val lib (n + 2) (knot_x xs keys val) (knot_y keys val) d (length xs) xs
           = Some out"
    and "length out = length xs"
  shows "log_likleyhood lib g keys val len =
         Inr (\<Sum>i<length xs.
                - 0.5 * ((ys ! i - (out ! i
                     + edges_power_law_log (tagged CHR ''a'' keys val) (xs ! i))) / 0.025)\<^sup>2
                - ln (sqrt (2 * PI) * 0.025),
              g\<lparr>g_pchip := \<lparr>pb_d = map Some d, pb_out = map Some out\<rparr>\<rparr>)"
proof -
  have gd: "g_data g = dataset xs ys n" and ys: "length ys = length xs"
    and sz: "length xs \<le> INT_MAX" "n + 2 \<le> INT_MAX"
    and bufs: "length (pb_d (g_pchip g)) = n + 2" "length (pb_out (g_pchip g)) = length xs"
    using assms(1) by (simp_all add: ready_def)
  have dec: "kwargs2coef (dataset xs ys n) keys val len =
         Inr \<lparr>coef_x = map Some (knot_x xs keys val), coef_y = map Some (knot_y keys val),
              coef_a = map Some (tagged CHR ''a'' keys val)\<rparr>"
    using assms(4-6) sz(2,1) assms(2,7-10) by (rule kwargs2coef_well_formed)
  have n: "size_to_int (size_add n 2) = Inr (n + 2)"
    using sz(2) by (simp add: size_to_int_def size_add_def INT_MAX_def)
  have ne: "size_to_int (length xs) = Inr (length xs)"
    using sz(1) by (simp add: size_to_int_def)
  have kx: "load_block (map Some (knot_x xs keys val)) (n + 2) = Inr (knot_x xs keys val)"
    using assms(7) by (intro load_block_map_Some) (simp add: knot_x_def)
  have ky: "load_block (map Some (knot_y keys val)) (n + 2) = Inr (knot_y keys val)"
    using assms(8) by (intro load_block_map_Some) (simp add: knot_y_def)
  have sd: "store_block (pb_d (g_pchip g)) d = Inr (map Some d)"
    using assms(13) bufs(1) by (intro store_block_full) simp
  have ld: "load_block (map Some d) (n + 2) = Inr d"
    using assms(13) by (intro load_block_map_Some) simp
  have lx: "load_block (map Some xs) (length xs) = Inr xs"
    by (intro load_block_map_Some) simp
  have so: "store_block (pb_out (g_pchip g)) out = Inr (map Some out)"
    using assms(15) bufs(2) by (intro store_block_full) simp
  have "log_likleyhood_loop (dataset xs ys n) (map Some out)
        (map Some (tagged CHR ''a'' keys val)) 0 0 =
      Inr (0 + (\<Sum>k = 0..<length xs.
               - 0.5 * ((ys ! k - (out ! k
                   + edges_power_law_log (tagged CHR ''a'' keys val) (xs ! k))) / 0.025)\<^sup>2
               - ln (sqrt (2 * PI) * 0.025)))"
    using ys assms(15,11,3) sz(1) by (intro log_likleyhood_loop_sum) simp_all
  then have loop: "log_likleyhood_loop (dataset xs ys n) (map Some out)
        (map Some (tagged CHR ''a'' keys val)) 0 0 =
      Inr (\<Sum>i<length xs.
                - 0.5 * ((ys ! i - (out ! i
                     + edges_power_law_log (tagged CHR ''a'' keys val) (xs ! i))) / 0.025)\<^sup>2
                - ln (sqrt (2 * PI) * 0.025))"
    by (simp only: add_0 lessThan_atLeast0)
  have sel: "gd_order (dataset xs ys n) = n" "gd_len (dataset xs ys n) = length xs"
    "gd_x (dataset xs ys n) = map Some xs"
    by (simp_all add: dataset_def)
  show ?thesis
    unfolding log_likleyhood_def Let_def gd
    by (simp only: sel dec and_then_Inr coef.select_convs n ne kx ky sd ld lx so loop
        assms(12,14) library_call_def option.case)
qed

lemma load_block_eq_Inr:
  "load_block arr n = Inr vs \<longleftrightarrow>
   n \<le> length arr \<and> None \<notin> set (take n arr) \<and> vs = map the (take n arr)"
  by (auto simp: load_block_def)

lemma size_to_int_eq_Inr: "size_to_int n = Inr m \<longleftrightarrow> n \<le> INT_MAX \<and> m = n"
  by (auto simp: size_to_int_def)

lemma library_call_eq_Inr: "library_call r = Inr v \<longleftrightarrow> r = Some v"
  by (cases r) (simp_all add: library_call_def)

text \<open>
  The scratch blocks are the only state a call reads besides the dataset.
  When the library fills them, the result does not depend on what they held:
  two Ready states over the same dataset give the same result.
\<close>

lemma log_likleyhood_two_states:
  assumes r1: "ready xs ys n g1" and r2: "ready xs ys n g2"
    and L1: "\<forall>x f d. spline_pchip_set lib (n + 2) x f = Some d \<longrightarrow> length d = n + 2"
    and L2: "\<forall>x f d fe. spline_pchip_val lib (n + 2) x f d (length xs) xs = Some fe \<longrightarrow>
               length fe = length xs"
    and run: "log_likleyhood lib g1 keys val len = Inr (r, g')"
  shows "log_likleyhood lib g2 keys val len = Inr (r, g') \<and> ready xs ys n g'"
proof -
  have gd1: "g_data g1 = dataset xs ys n" and gd2: "g_data g2 = dataset xs ys n"
    and sz: "length xs \<le> INT_MAX" "n + 2 \<le> INT_MAX" and ys: "length ys = length xs"
    and b1: "length (pb_d (g_pchip g1)) = n + 2" "length (pb_out (g_pchip g1)) = length xs"
    and b2: "length (pb_d (g_pchip g2)) = n + 2" "length (pb_out (g_pchip g2)) = length xs"
    using r1 r2 by (simp_all add: ready_def)
  have sel: "gd_order (dataset xs ys n) = n" "gd_len (dataset xs ys n) = length xs"
    "gd_x (dataset xs ys n) = map Some xs"
    by (simp_all add: dataset_def)
  have n: "size_to_int (size_add n 2) = Inr (n + 2)"
    using sz(2) by (simp add: size_to_int_def size_add_def INT_MAX_def)
  have ne: "size_to_int (length xs) = Inr (length xs)"
    using sz(1) by (simp add: size_to_int_def)
  have lx: "load_block (map Some xs) (length xs) = Inr xs"
    by (intro load_block_map_Some) simp
  from run obtain coef x f d buf_d d' fe buf_out where
    1: "kwargs2coef (dataset xs ys n) keys val len = Inr coef" and
    3: "load_block (coef_x coef) (n + 2) = Inr x" and
    4: "load_block (coef_y coef) (n + 2) = Inr f" and
    5: "spline_pchip_set lib (n + 2) x f = Some d" and
    6: "store_block (pb_d (g_pchip g1)) d = Inr buf_d" and
    7: "load_block buf_d (n + 2) = Inr d'" and
    10: "spline_pchip_val lib (n + 2) x f d' (length xs) xs = Some fe" and
    11: "store_block (pb_out (g_pchip g1)) fe = Inr buf_out" and
    12: "log_likleyhood_loop (dataset xs ys n) buf_out (coef_a coef) 0 0 = Inr r" and
    13: "g' = g1\<lparr>g_pchip := \<lparr>pb_d = buf_d, pb_out = buf_out\<rparr>\<rparr>"
    unfolding log_likleyhood_def Let_def gd1 sel
    by (auto simp: and_then_eq_Inr library_call_eq_Inr n ne lx)
  have ld: "length d = n + 2" using L1 5 by blast
  have lfe: "length fe = length xs" using L2 10 by blast
  have bd: "buf_d = map Some d" using 6 ld b1(1) by (simp add: store_block_def)
  have bo: "buf_out = map Some fe" using 11 lfe b1(2) by (simp add: store_block_def)
  have sd2: "store_block (pb_d (g_pchip g2)) d = Inr buf_d"
    using ld b2(1) by (simp add: store_block_def bd)
  have so2: "store_block (pb_out (g_pchip g2)) fe = Inr buf_out"
    using lfe b2(2) by (simp add: store_block_def bo)
  have eq: "g2\<lparr>g_pchip := \<lparr>pb_d = buf_d, pb_out = buf_out\<rparr>\<rparr> = g'"
    unfolding 13 using gd1 gd2 by (cases g1, cases g2) simp
  have "log_likleyhood lib g2 keys val len = Inr (r, g')"
    unfolding log_likleyhood_def Let_def gd2
    by (simp only: sel 1 n ne lx 3 4 5 sd2 7 10 so2 12 and_then_Inr library_call_def
        option.case eq)
  moreover have "ready xs ys n g'"
    using r1 ld lfe by (simp add: 13 ready_def bd bo)
  ultimately show ?thesis by blast
qed


text \<open>
  A call that returns leaves globals from which the same call returns the
  same again: the scratch blocks are overwritten before they are read.
\<close>

lemma log_likleyhood_again:
  assumes "log_likleyhood lib g keys val len = Inr (r, g')"
  shows "log_likleyhood lib g' keys val len = Inr (r, g')"
proof -
  from assms obtain coef n x f d buf_d d' ne xe fe buf_out where
    1: "kwargs2coef (g_data g) keys val len = Inr coef" and
    2: "size_to_int (size_add (gd_order (g_data g)) 2) = Inr n" and
    3: "load_block (coef_x coef) n = Inr x" and
    4: "load_block (coef_y coef) n = Inr f" and
    5: "library_call (spline_pchip_set lib n x f) = Inr d" and
    6: "store_block (pb_d (g_pchip g)) d = Inr buf_d" and
    7: "load_block buf_d n = Inr d'" and
    8: "size_to_int (gd_len (g_data g)) = Inr ne" and
    9: "load_block (gd_x (g_data g)) ne = Inr xe" and
    10: "library_call (spline_pchip_val lib n x f d' ne xe) = Inr fe" and
    11: "store_block (pb_out (g_pchip g)) fe = Inr buf_out" and
    12: "log_likleyhood_loop (g_data g) buf_out (coef_a coef) 0 0 = Inr r" and
    13: "g' = g\<lparr>g_pchip := \<lparr>pb_d = buf_d, pb_out = buf_out\<rparr>\<rparr>"
    unfolding log_likleyhood_def Let_def and_then_eq_Inr by auto
  have "store_block buf_d d = Inr buf_d" "store_block buf_out fe = Inr buf_out"
    using 6 11 by (simp_all add: store_block_again)
  then show ?thesis
    unfolding log_likleyhood_def Let_def 13
    by (simp add: 1 2 3 4 5 7 8 9 10 12)
qed

section \<open>Concrete runs\<close>

lemmas run_simps = replicate_numeral_unfold
  kwargs2coef_def kwargs2coef_run_def kwargs2coef_start_def kwargs2coef_loop.simps
  kwargs2coef_switch_def rd_def store_def load_def int_incr_def INT_MAX_def leading_char_def
  malloc_doubles_def size_add_def size_sub_def size_mul_def PTRDIFF_MAX_def dataset_def
  global_border_def Let_def tagged_def

lemmas eval_simps =
  log_likleyhood_def log_likleyhood_loop.simps logpdf_def t21fg_def t21fg_edgesa_def
  c_pow_def c_log_def c_sqrt_def size_to_int_def load_block_def store_block_def
  library_call_def chord_spline_def PI_def

lemma concrete_run:
  "log_likleyhood chord_spline
     \<lparr>g_data = dataset [75] [3] 0, g_pchip = \<lparr>pb_d = [None, None], pb_out = [None]\<rparr>\<rparr>
     [''f0'', ''f1'', ''a0'', ''a1'', ''a2'', ''a3'', ''a4''] [1, 3, 1, 0, 0, 0, 0] 7 =
   Inr (- ln (sqrt (2 * PI) * 0.025),
        \<lparr>g_data = dataset [75] [3] 0,
         g_pchip = \<lparr>pb_d = [Some 10, Some 10], pb_out = [Some 2]\<rparr>\<rparr>)"
  by (simp add: eval_simps run_simps)

lemma concrete_ready:
  "ready [75] [3] 0
     \<lparr>g_data = dataset [75] [3] 0, g_pchip = \<lparr>pb_d = [None, None], pb_out = [None]\<rparr>\<rparr>"
  by (simp add: ready_def INT_MAX_def)

lemma concrete_ready_other:
  "ready [75] [3] 0
     \<lparr>g_data = dataset [75] [3] 0, g_pchip = \<lparr>pb_d = [Some 5, None], pb_out = [Some 7]\<rparr>\<rparr>"
  by (simp add: ready_def INT_MAX_def)

section \<open>Claims\<close>

subsection \<open>C1: the value of \<open>log_likleyhood\<close>\<close>



subsection \<open>C2: the series of \<open>t21fg_sims\<close>\<close>

text \<open>
  Claim C2.  The claim has the series term \<open>i\<close> (for \<open>i = 0, \<dots>, 4\<close>) be
  \<open>10 ^ (d[4+i] * log10 (nu/75) ^ i)\<close>.  The code raises the logarithm to the
  loop variable, which runs from 4 to 8, so the exponent is \<open>4 + i\<close>.  At
  \<open>d = [0, 1, 0, 0, 1, 0, 0, 0, 0]\<close> and \<open>nu = 7500\<close> (where \<open>log10 (nu/75) = 2\<close>)
  the code returns \<open>10^16 + 4\<close>, where the formula of the claim gives 14.
\<close>

theorem t21fg_sims_exponent_starts_at_four:
  "t21fg_sims (map Some [0, 1, 0, 0, 1, 0, 0, 0, 0]) 7500 = Inr (10 ^ 16 + 4) \<and>
   (7500 / 75) powr 0 * (0 * sin (2 * PI * 7500 / 1) + 0 * cos (2 * PI * 7500 / 1))
     + (\<Sum>i = 0..4. 10 powr ([0, 1, 0, 0, 1, 0, 0, 0, 0] ! (4 + i) * log 10 (7500 / 75) ^ i))
     = (14::real)"
  by (simp add: t21fg_sims_def load_def c_pow_def c_div_def c_log10_def log10_100
      t21fg_sims_loop.simps sum.atLeast_Suc_atMost)

subsection \<open>C3: the formula of \<open>t21fg_edgesa\<close>\<close>

text \<open>
  Claim C3.  For five coefficients \<open>a0, \<dots>, a4\<close> and a frequency \<open>nu > 0\<close>,
  \<open>t21fg_edgesa\<close> returns
  \<open>a0 (nu/75)^-2.5 + a1 (nu/75)^-2.5 ln (nu/75) + a2 (nu/75)^-2.5 ln (nu/75)^2
  + a3 (nu/75)^-4.5 + a4 (nu/75)^-2.0\<close>; at \<open>nu = 75\<close> with coefficients
  \<open>1, 2, 3, 4, 5\<close> it returns 10.
\<close>

theorem t21fg_edgesa_formula:
  "0 < nu \<Longrightarrow>
   t21fg_edgesa (map Some [a0, a1, a2, a3, a4]) nu =
     Inr (a0 * (nu / 75) powr (- 2.5)
        + a1 * (nu / 75) powr (- 2.5) * ln (nu / 75)
        + a2 * (nu / 75) powr (- 2.5) * (ln (nu / 75))\<^sup>2
        + a3 * (nu / 75) powr (- 4.5)
        + a4 * (nu / 75) powr (- 2.0))
   \<and> t21fg_edgesa (map Some [1, 2, 3, 4, 5]) 75 = Inr 10"
  by (simp add: t21fg_edgesa_def load_def c_pow_pos c_pow_two c_log_def)

theorem t21fg_edgesa_formula_witness:
  "(0::real) < 150 \<and>
   t21fg_edgesa (map Some [1, 2, 3, 4, 5]) 150 =
     Inr (1 * 2 powr (- 2.5) + 2 * 2 powr (- 2.5) * ln 2 + 3 * 2 powr (- 2.5) * (ln 2)\<^sup>2
          + 4 * 2 powr (- 4.5) + 5 * 2 powr (- 2.0))
   \<and> t21fg_edgesa (map Some [1, 2, 3, 4, 5]) 75 = Inr 10"
  using t21fg_edgesa_formula [of 150 1 2 3 4 5] by simp

subsection \<open>C4: assignment in encounter order\<close>

text \<open>
  Claim C4.  Entries are assigned by the leading character of their name, in
  the order in which they occur.  For every proposal vector whose entries
  stay within the blocks, the decoder returns a knot set in which cell \<open>k\<close>
  of the knot x-positions, for \<open>k\<close> from 1 to the order, holds the \<open>k\<close>-th
  value with an \<open>x\<close> name; likewise for \<open>y\<close>; and the values with an \<open>a\<close>
  name fill the coefficient block from its start, in order.  The coefficient
  block has \<open>len - 2 * order - 2\<close> cells.
\<close>

theorem kwargs2coef_encounter_order:
  assumes "length keys = len" and "length val = len" and "len \<le> INT_MAX"
    and "n + 2 \<le> INT_MAX" and "length xs \<le> INT_MAX" and "xs \<noteq> []"
    and "length (tagged CHR ''x'' keys val) \<le> n + 1"
    and "length (tagged CHR ''y'' keys val) \<le> n + 1"
    and "length (tagged CHR ''a'' keys val) \<le> len - (2 * n + 2)"
  shows "\<exists>c. kwargs2coef (dataset xs ys n) keys val len = Inr c \<and>
         (\<forall>k. 1 \<le> k \<and> k \<le> n \<and> k \<le> length (tagged CHR ''x'' keys val) \<longrightarrow>
            coef_x c ! k = Some (tagged CHR ''x'' keys val ! (k - 1))) \<and>
         (\<forall>k. 1 \<le> k \<and> k \<le> n \<and> k \<le> length (tagged CHR ''y'' keys val) \<longrightarrow>
            coef_y c ! k = Some (tagged CHR ''y'' keys val ! (k - 1))) \<and>
         (\<forall>k. k < length (tagged CHR ''a'' keys val) \<longrightarrow>
            coef_a c ! k = Some (tagged CHR ''a'' keys val ! k)) \<and>
         length (tagged CHR ''a'' keys val) \<le> length (coef_a c) \<and>
         length (coef_x c) = n + 2 \<and> length (coef_y c) = n + 2 \<and>
         (2 * n + 2 \<le> len \<longrightarrow> length (coef_a c) = len - 2 * n - 2)"
proof -
  have cap: "a_capacity n len = len - (2 * n + 2)" using assms(3,4) by (rule a_capacity_eq)
  from run_total[OF assms(1-5,7,8) _ assms(6), of ys] assms(9) cap obtain st where
    run: "kwargs2coef_run (dataset xs ys n) keys val len = Inr st" and
    inv: "decoded_upto xs n (a_capacity n len) keys val len st" by auto
  have T: "take len keys = keys" "take len val = val"
    using assms(1,2) by simp_all
  have "kwargs2coef (dataset xs ys n) keys val len = Inr (dec_coef st)"
    using run by (simp add: kwargs2coef_def)
  moreover have
    "(\<forall>k. 1 \<le> k \<and> k \<le> n \<and> k \<le> length (tagged CHR ''x'' keys val) \<longrightarrow>
            coef_x (dec_coef st) ! k = Some (tagged CHR ''x'' keys val ! (k - 1))) \<and>
         (\<forall>k. 1 \<le> k \<and> k \<le> n \<and> k \<le> length (tagged CHR ''y'' keys val) \<longrightarrow>
            coef_y (dec_coef st) ! k = Some (tagged CHR ''y'' keys val ! (k - 1))) \<and>
         (\<forall>k. k < length (tagged CHR ''a'' keys val) \<longrightarrow>
            coef_a (dec_coef st) ! k = Some (tagged CHR ''a'' keys val ! k)) \<and>
         length (tagged CHR ''a'' keys val) \<le> length (coef_a (dec_coef st)) \<and>
         length (coef_x (dec_coef st)) = n + 2 \<and> length (coef_y (dec_coef st)) = n + 2 \<and>
         (2 * n + 2 \<le> len \<longrightarrow> length (coef_a (dec_coef st)) = len - 2 * n - 2)"
    using inv unfolding decoded_upto_def Let_def T cap by auto
  ultimately show ?thesis by blast
qed

theorem kwargs2coef_encounter_order_witness:
  "kwargs2coef (dataset [50, 60] [1, 2] 2)
     [''x1'', ''a0'', ''y1'', ''f0'', ''x0'', ''y0'', ''f1'', ''a1'', ''a2'']
     [11, 12, 13, 14, 15, 16, 17, 18, 19] 9 =
   Inr \<lparr>coef_x = [Some 49.9, Some 11, Some 15, Some 60.1],
        coef_y = [Some 14, Some 13, Some 16, Some 17],
        coef_a = [Some 12, Some 18, Some 19]\<rparr> \<and>
   tagged CHR ''x'' [''x1'', ''a0'', ''y1'', ''f0'', ''x0'', ''y0'', ''f1'', ''a1'', ''a2'']
     [11, 12, 13, 14, 15, 16, 17, 18, 19] = [11, 15] \<and>
   tagged CHR ''y'' [''x1'', ''a0'', ''y1'', ''f0'', ''x0'', ''y0'', ''f1'', ''a1'', ''a2'']
     [11, 12, 13, 14, 15, 16, 17, 18, 19] = [13, 16] \<and>
   tagged CHR ''a'' [''x1'', ''a0'', ''y1'', ''f0'', ''x0'', ''y0'', ''f1'', ''a1'', ''a2'']
     [11, 12, 13, 14, 15, 16, 17, 18, 19] = [12, 18, 19] \<and>
   length [Some 12, Some 18, Some (19::real)] = 9 - 2 * 2 - 2"
proof -
  let ?K = "[''x1'', ''a0'', ''y1'', ''f0'', ''x0'', ''y0'', ''f1'', ''a1'', ''a2'']"
  let ?V = "[11, 12, 13, 14, 15, 16, 17, 18, 19] :: real list"
  let ?C = "\<lparr>coef_x = [Some 49.9, Some 11, Some 15, Some 60.1],
        coef_y = [Some 14, Some 13, Some 16, Some 17],
        coef_a = [Some 12, Some 18, Some 19]\<rparr>"
  have T: "tagged CHR ''x'' ?K ?V = [11, 15]" "tagged CHR ''y'' ?K ?V = [13, 16]"
    "tagged CHR ''a'' ?K ?V = [12, 18, 19]"
    by (simp_all add: tagged_def leading_char_def)
  have "\<exists>c. kwargs2coef (dataset [50, 60] [1, 2] 2) ?K ?V 9 = Inr c \<and>
         (\<forall>k. 1 \<le> k \<and> k \<le> 2 \<and> k \<le> length (tagged CHR ''x'' ?K ?V) \<longrightarrow>
            coef_x c ! k = Some (tagged CHR ''x'' ?K ?V ! (k - 1))) \<and>
         (\<forall>k. 1 \<le> k \<and> k \<le> 2 \<and> k \<le> length (tagged CHR ''y'' ?K ?V) \<longrightarrow>
            coef_y c ! k = Some (tagged CHR ''y'' ?K ?V ! (k - 1))) \<and>
         (\<forall>k. k < length (tagged CHR ''a'' ?K ?V) \<longrightarrow>
            coef_a c ! k = Some (tagged CHR ''a'' ?K ?V ! k)) \<and>
         length (tagged CHR ''a'' ?K ?V) \<le> length (coef_a c) \<and>
         length (coef_x c) = 2 + 2 \<and> length (coef_y c) = 2 + 2 \<and>
         (2 * 2 + 2 \<le> (9::nat) \<longrightarrow> length (coef_a c) = 9 - 2 * 2 - 2)"
    by (rule kwargs2coef_encounter_order) (simp_all add: T INT_MAX_def)
  then have "\<exists>c. kwargs2coef (dataset [50, 60] [1, 2] 2) ?K ?V 9 = Inr c \<and>
      length (coef_a c) = 9 - 2 * 2 - 2" by auto
  moreover have "kwargs2coef (dataset [50, 60] [1, 2] 2) ?K ?V 9 = Inr ?C"
    by (simp add: run_simps)
  ultimately show ?thesis using T by simp
qed

subsection \<open>C5: the boundary knots\<close>

text \<open>
  Claim C5, amended.  For every proposal vector with exactly two names under
  \<open>f\<close>, no more than \<open>order\<close> names under \<open>x\<close> and under \<open>y\<close>, and names
  under \<open>a\<close> that fit their block, over a dataset that is not empty, the
  decoder returns a knot set with the boundary x-positions \<open>x[0] - 0.1\<close> and
  \<open>x[len-1] + 0.1\<close> (the least and the greatest frequency of an increasing
  dataset); the first \<open>f\<close> value is the y-value at index 0 and the second the
  y-value at index \<open>order + 1\<close>.
\<close>

theorem kwargs2coef_boundary_knots:
  assumes "length keys = len" and "length val = len" and "len \<le> INT_MAX"
    and "n + 2 \<le> INT_MAX" and "length xs \<le> INT_MAX" and "xs \<noteq> []"
    and "length (tagged CHR ''f'' keys val) = 2"
    and "length (tagged CHR ''x'' keys val) \<le> n"
    and "length (tagged CHR ''y'' keys val) \<le> n"
    and "length (tagged CHR ''a'' keys val) \<le> len - (2 * n + 2)"
  shows "\<exists>c. kwargs2coef (dataset xs ys n) keys val len = Inr c \<and>
         coef_x c ! 0 = Some (xs ! 0 - 0.1) \<and>
         coef_x c ! (n + 1) = Some (last xs + 0.1) \<and>
         coef_y c ! 0 = Some (tagged CHR ''f'' keys val ! 0) \<and>
         coef_y c ! (n + 1) = Some (tagged CHR ''f'' keys val ! 1) \<and>
         (sorted xs \<longrightarrow> xs ! 0 = Min (set xs) \<and> last xs = Max (set xs))"
proof -
  have cap: "a_capacity n len = len - (2 * n + 2)" using assms(3,4) by (rule a_capacity_eq)
  have bx: "length (tagged CHR ''x'' keys val) \<le> n + 1"
    and bY: "length (tagged CHR ''y'' keys val) \<le> n + 1"
    using assms(8,9) by simp_all
  from run_total[OF assms(1-5) bx bY _ assms(6), of ys] assms(10) cap obtain st where
    run: "kwargs2coef_run (dataset xs ys n) keys val len = Inr st" and
    inv: "decoded_upto xs n (a_capacity n len) keys val len st" by auto
  have T: "take len keys = keys" "take len val = val"
    using assms(1,2) by simp_all
  have F: "tagged CHR ''f'' keys val \<noteq> []" "\<not> length (tagged CHR ''f'' keys val) < 2"
    using assms(7) by auto
  from F(1) have "last (tagged CHR ''f'' keys val) =
      tagged CHR ''f'' keys val ! (length (tagged CHR ''f'' keys val) - 1)"
    by (rule last_conv_nth)
  then have L: "last (tagged CHR ''f'' keys val) = tagged CHR ''f'' keys val ! 1"
    using assms(7) by simp
  have cells: "coef_x (dec_coef st) ! 0 = Some (xs ! 0 - global_border)"
    "coef_x (dec_coef st) ! (n + 1) = Some (last xs + global_border)"
    "coef_y (dec_coef st) ! 0 = Some (tagged CHR ''f'' keys val ! 0)"
    "coef_y (dec_coef st) ! (n + 1) = Some (tagged CHR ''f'' keys val ! 1)"
    using inv F L assms(8,9) unfolding decoded_upto_def Let_def T by simp_all
  have "kwargs2coef (dataset xs ys n) keys val len = Inr (dec_coef st)"
    using run by (simp add: kwargs2coef_def)
  moreover have "coef_x (dec_coef st) ! 0 = Some (xs ! 0 - 0.1) \<and>
         coef_x (dec_coef st) ! (n + 1) = Some (last xs + 0.1) \<and>
         coef_y (dec_coef st) ! 0 = Some (tagged CHR ''f'' keys val ! 0) \<and>
         coef_y (dec_coef st) ! (n + 1) = Some (tagged CHR ''f'' keys val ! 1) \<and>
         (sorted xs \<longrightarrow> xs ! 0 = Min (set xs) \<and> last xs = Max (set xs))"
    using cells assms(6) by (simp add: global_border_def sorted_first_Min sorted_last_Max)
  ultimately show ?thesis by blast
qed

theorem kwargs2coef_boundary_knots_witness:
  "kwargs2coef (dataset [50, 60] [1, 2] 2)
     [''x1'', ''a0'', ''y1'', ''f0'', ''x0'', ''y0'', ''f1'', ''a1'', ''a2'']
     [11, 12, 13, 14, 15, 16, 17, 18, 19] 9 =
   Inr \<lparr>coef_x = [Some 49.9, Some 11, Some 15, Some 60.1],
        coef_y = [Some 14, Some 13, Some 16, Some 17],
        coef_a = [Some 12, Some 18, Some 19]\<rparr> \<and>
   tagged CHR ''f'' [''x1'', ''a0'', ''y1'', ''f0'', ''x0'', ''y0'', ''f1'', ''a1'', ''a2'']
     [11, 12, 13, 14, 15, 16, 17, 18, 19] = [14, 17] \<and>
   sorted [50, 60 :: real] \<and> Min (set [50, 60 :: real]) = 50 \<and> Max (set [50, 60 :: real]) = 60"
proof -
  let ?K = "[''x1'', ''a0'', ''y1'', ''f0'', ''x0'', ''y0'', ''f1'', ''a1'', ''a2'']"
  let ?V = "[11, 12, 13, 14, 15, 16, 17, 18, 19] :: real list"
  let ?C = "\<lparr>coef_x = [Some 49.9, Some 11, Some 15, Some 60.1],
        coef_y = [Some 14, Some 13, Some 16, Some 17],
        coef_a = [Some 12, Some 18, Some 19]\<rparr>"
  have run: "kwargs2coef (dataset [50, 60] [1, 2] 2) ?K ?V 9 = Inr ?C"
    by (simp add: run_simps)
  have F: "tagged CHR ''f'' ?K ?V = [14, 17]" "tagged CHR ''x'' ?K ?V = [11, 15]"
    "tagged CHR ''y'' ?K ?V = [13, 16]" "tagged CHR ''a'' ?K ?V = [12, 18, 19]"
    by (simp_all add: tagged_def leading_char_def)
  have "\<exists>c. kwargs2coef (dataset [50, 60] [1, 2] 2) ?K ?V 9 = Inr c \<and>
         coef_x c ! 0 = Some ([50, 60] ! 0 - 0.1) \<and>
         coef_x c ! (2 + 1) = Some (last [50, 60] + 0.1) \<and>
         coef_y c ! 0 = Some (tagged CHR ''f'' ?K ?V ! 0) \<and>
         coef_y c ! (2 + 1) = Some (tagged CHR ''f'' ?K ?V ! 1) \<and>
         (sorted [50, 60 :: real] \<longrightarrow>
            [50, 60 :: real] ! 0 = Min (set [50, 60]) \<and> last [50, 60 :: real] = Max (set [50, 60]))"
    by (rule kwargs2coef_boundary_knots) (simp_all add: F INT_MAX_def)
  then have "[50, 60 :: real] ! 0 = Min (set [50, 60]) \<and> last [50, 60 :: real] = Max (set [50, 60])"
    by auto
  then show ?thesis using run F by simp
qed

text \<open>
  The claim as it was stated, for every decoded knot set, fails without
  these bounds.  At order 0: after \<open>f0, f1\<close> the entry \<open>x0\<close> is written to
  index \<open>x_loc = 1\<close>, so the right boundary x-position is 3 and not
  \<open>75 + 0.1\<close>; after \<open>f0, f1\<close> the entry \<open>y0\<close> replaces the second \<open>f\<close> value
  at the right boundary; a third \<open>f\<close> name replaces the second; and with a
  single \<open>f\<close> name the right boundary is never written.
\<close>

theorem kwargs2coef_boundary_knots_counterexample:
  "kwargs2coef (dataset [75] [1] 0) [''f0'', ''f1'', ''x0''] [1, 2, 3] 3 =
     Inr \<lparr>coef_x = [Some 74.9, Some 3], coef_y = [Some 1, Some 2], coef_a = [None]\<rparr> \<and>
   [Some 74.9, Some (3::real)] ! (0 + 1) \<noteq> Some (last [75] + 0.1) \<and>
   kwargs2coef (dataset [75] [1] 0) [''f0'', ''f1'', ''y0''] [1, 2, 3] 3 =
     Inr \<lparr>coef_x = [Some 74.9, Some 75.1], coef_y = [Some 1, Some 3], coef_a = [None]\<rparr> \<and>
   tagged CHR ''f'' [''f0'', ''f1'', ''y0''] [1, 2, 3] ! 1 = 2 \<and>
   kwargs2coef (dataset [75] [1] 0) [''f0'', ''f1'', ''f2''] [1, 2, 3] 3 =
     Inr \<lparr>coef_x = [Some 74.9, Some 75.1], coef_y = [Some 1, Some 3], coef_a = [None]\<rparr> \<and>
   tagged CHR ''f'' [''f0'', ''f1'', ''f2''] [1, 2, 3] ! 1 = 2 \<and>
   [Some 1, Some (3::real)] ! (0 + 1) \<noteq> Some 2 \<and>
   kwargs2coef (dataset [75] [1] 0) [''f0'', ''q0'', ''a0''] [1, 2, 3] 3 =
     Inr \<lparr>coef_x = [Some 74.9, None], coef_y = [Some 1, None], coef_a = [Some 3]\<rparr>"
  by (simp add: run_simps)

subsection \<open>C6: no schema check\<close>

text \<open>
  Claim C6, amended.  The decoder does not check the tag counts and reports
  no error.  Whenever the entries stay within the blocks (at most
  \<open>order + 1\<close> names under \<open>x\<close> and under \<open>y\<close>, at most \<open>len - 2 * order - 2\<close>
  under \<open>a\<close>, a dataset that is not empty), it returns a knot set, whether
  or not the counts match the schema, and the cells that no entry addressed
  are left unwritten.
\<close>

theorem kwargs2coef_no_schema_check:
  assumes "length keys = len" and "length val = len" and "len \<le> INT_MAX"
    and "n + 2 \<le> INT_MAX" and "length xs \<le> INT_MAX" and "xs \<noteq> []"
    and "length (tagged CHR ''x'' keys val) \<le> n + 1"
    and "length (tagged CHR ''y'' keys val) \<le> n + 1"
    and "length (tagged CHR ''a'' keys val) \<le> len - (2 * n + 2)"
  shows "\<exists>c. kwargs2coef (dataset xs ys n) keys val len = Inr c \<and>
           (\<forall>k. length (tagged CHR ''x'' keys val) < k \<and> k \<le> n \<longrightarrow> coef_x c ! k = None) \<and>
           (\<forall>k. length (tagged CHR ''y'' keys val) < k \<and> k \<le> n \<longrightarrow> coef_y c ! k = None) \<and>
           (\<forall>k. length (tagged CHR ''a'' keys val) \<le> k \<and> k < length (coef_a c) \<longrightarrow>
                 coef_a c ! k = None) \<and>
           (tagged CHR ''f'' keys val = [] \<longrightarrow> coef_x c ! 0 = None \<and> coef_y c ! 0 = None)"
proof -
  have cap: "a_capacity n len = len - (2 * n + 2)" using assms(3,4) by (rule a_capacity_eq)
  from run_total[OF assms(1-5,7,8) _ assms(6), of ys] assms(9) cap obtain st where
    run: "kwargs2coef_run (dataset xs ys n) keys val len = Inr st" and
    inv: "decoded_upto xs n (a_capacity n len) keys val len st" by auto
  have T: "take len keys = keys" "take len val = val"
    using assms(1,2) by simp_all
  have "kwargs2coef (dataset xs ys n) keys val len = Inr (dec_coef st)"
    using run by (simp add: kwargs2coef_def)
  moreover have
    "(\<forall>k. length (tagged CHR ''x'' keys val) < k \<and> k \<le> n \<longrightarrow> coef_x (dec_coef st) ! k = None) \<and>
     (\<forall>k. length (tagged CHR ''y'' keys val) < k \<and> k \<le> n \<longrightarrow> coef_y (dec_coef st) ! k = None) \<and>
     (\<forall>k. length (tagged CHR ''a'' keys val) \<le> k \<and> k < length (coef_a (dec_coef st)) \<longrightarrow>
           coef_a (dec_coef st) ! k = None) \<and>
     (tagged CHR ''f'' keys val = [] \<longrightarrow>
        coef_x (dec_coef st) ! 0 = None \<and> coef_y (dec_coef st) ! 0 = None)"
    using inv unfolding decoded_upto_def Let_def T by auto
  ultimately show ?thesis by blast
qed

theorem kwargs2coef_no_schema_check_witness:
  "kwargs2coef (dataset [50, 60] [1, 2] 2)
     [''x0'', ''y0'', ''y1'', ''f0'', ''f1'', ''a0'', ''a1'', ''a2'', ''a3'', ''q'']
     [11, 12, 13, 14, 15, 16, 17, 18, 19, 20] 10 =
   Inr \<lparr>coef_x = [Some 49.9, Some 11, None, Some 60.1],
        coef_y = [Some 14, Some 12, Some 13, Some 15],
        coef_a = [Some 16, Some 17, Some 18, Some 19]\<rparr> \<and>
   tagged CHR ''x'' [''x0'', ''y0'', ''y1'', ''f0'', ''f1'', ''a0'', ''a1'', ''a2'', ''a3'', ''q'']
     [11, 12, 13, 14, 15, 16, 17, 18, 19, 20] = [11] \<and>
   length [11 :: real] < 2 \<and> [50, 60 :: real] \<noteq> []"
proof -
  let ?K = "[''x0'', ''y0'', ''y1'', ''f0'', ''f1'', ''a0'', ''a1'', ''a2'', ''a3'', ''q'']"
  let ?V = "[11, 12, 13, 14, 15, 16, 17, 18, 19, 20] :: real list"
  have T: "tagged CHR ''x'' ?K ?V = [11]" "tagged CHR ''y'' ?K ?V = [12, 13]"
    "tagged CHR ''a'' ?K ?V = [16, 17, 18, 19]"
    by (simp_all add: tagged_def leading_char_def)
  have "\<exists>c. kwargs2coef (dataset [50, 60] [1, 2] 2) ?K ?V 10 = Inr c \<and>
           (\<forall>k. length (tagged CHR ''x'' ?K ?V) < k \<and> k \<le> 2 \<longrightarrow> coef_x c ! k = None) \<and>
           (\<forall>k. length (tagged CHR ''y'' ?K ?V) < k \<and> k \<le> 2 \<longrightarrow> coef_y c ! k = None) \<and>
           (\<forall>k. length (tagged CHR ''a'' ?K ?V) \<le> k \<and> k < length (coef_a c) \<longrightarrow>
                 coef_a c ! k = None) \<and>
           (tagged CHR ''f'' ?K ?V = [] \<longrightarrow> coef_x c ! 0 = None \<and> coef_y c ! 0 = None)"
    by (rule kwargs2coef_no_schema_check) (simp_all add: T INT_MAX_def)
  then have "\<exists>c. kwargs2coef (dataset [50, 60] [1, 2] 2) ?K ?V 10 = Inr c" by blast
  moreover have "kwargs2coef (dataset [50, 60] [1, 2] 2) ?K ?V 10 =
     Inr \<lparr>coef_x = [Some 49.9, Some 11, None, Some 60.1],
        coef_y = [Some 14, Some 12, Some 13, Some 15],
        coef_a = [Some 16, Some 17, Some 18, Some 19]\<rparr>"
    by (simp add: run_simps)
  ultimately show ?thesis using T by simp
qed

text \<open>
  The claim as it was stated fails.  At order 0, the eight names
  \<open>f0, f1, f2, a0, \<dots>, a4\<close> have three names under \<open>f\<close> and five under \<open>a\<close>
  where the schema asks for two and six, and \<open>log_likleyhood\<close> returns a
  value.  At order 2, ten names with a single name under \<open>x\<close> decode to a
  knot set whose x-position 2 was never written.
\<close>

theorem log_likleyhood_no_decode_error_counterexample:
  "length (tagged CHR ''f'' [''f0'', ''f1'', ''f2'', ''a0'', ''a1'', ''a2'', ''a3'', ''a4'']
      [1, 9, 3, 1, 0, 0, 0, 0]) = 3 \<and>
   length (tagged CHR ''a'' [''f0'', ''f1'', ''f2'', ''a0'', ''a1'', ''a2'', ''a3'', ''a4'']
      [1, 9, 3, 1, 0, 0, 0, 0]) = 5 \<and> (8::nat) - 2 * 0 - 2 = 6 \<and>
   log_likleyhood chord_spline
     \<lparr>g_data = dataset [75] [3] 0, g_pchip = \<lparr>pb_d = [None, None], pb_out = [None]\<rparr>\<rparr>
     [''f0'', ''f1'', ''f2'', ''a0'', ''a1'', ''a2'', ''a3'', ''a4''] [1, 9, 3, 1, 0, 0, 0, 0] 8 =
   Inr (- ln (sqrt (2 * PI) * 0.025),
        \<lparr>g_data = dataset [75] [3] 0,
         g_pchip = \<lparr>pb_d = [Some 10, Some 10], pb_out = [Some 2]\<rparr>\<rparr>) \<and>
   length (tagged CHR ''x''
      [''x0'', ''y0'', ''y1'', ''f0'', ''f1'', ''f2'', ''a0'', ''a1'', ''a2'', ''a3'']
      [11, 12, 13, 14, 15, 16, 17, 18, 19, 20]) = 1 \<and>
   kwargs2coef (dataset [50, 60] [1, 2] 2)
      [''x0'', ''y0'', ''y1'', ''f0'', ''f1'', ''f2'', ''a0'', ''a1'', ''a2'', ''a3'']
      [11, 12, 13, 14, 15, 16, 17, 18, 19, 20] 10 =
   Inr \<lparr>coef_x = [Some 49.9, Some 11, None, Some 60.1],
        coef_y = [Some 14, Some 12, Some 13, Some 16],
        coef_a = [Some 17, Some 18, Some 19, Some 20]\<rparr>"
  by (simp add: eval_simps run_simps)

subsection \<open>C7: repeated calls\<close>




subsection \<open>C8: the dataset is left alone\<close>

text \<open>
  Claim C8.  A call that returns leaves the dataset as it was: the arrays
  \<open>x\<close> and \<open>y\<close>, \<open>len\<close> and \<open>order\<close> are unchanged, and the globals are
  Ready again.
\<close>

theorem log_likleyhood_keeps_dataset:
  assumes "ready xs ys n g" and "log_likleyhood lib g keys val len = Inr (r, g')"
  shows "g_data g' = g_data g \<and> gd_x (g_data g') = map Some xs \<and>
         gd_y (g_data g') = map Some ys \<and> gd_len (g_data g') = length xs \<and>
         gd_order (g_data g') = n \<and> ready xs ys n g'"
proof -
  from assms(2) obtain d buf_d fe buf_out where
    6: "store_block (pb_d (g_pchip g)) d = Inr buf_d" and
    11: "store_block (pb_out (g_pchip g)) fe = Inr buf_out" and
    13: "g' = g\<lparr>g_pchip := \<lparr>pb_d = buf_d, pb_out = buf_out\<rparr>\<rparr>"
    unfolding log_likleyhood_def Let_def and_then_eq_Inr by auto
  show ?thesis
    using assms(1) store_block_length[OF 6] store_block_length[OF 11]
    by (simp add: 13 ready_def dataset_def)
qed

theorem log_likleyhood_keeps_dataset_witness:
  "ready [75] [3] 0
     \<lparr>g_data = dataset [75] [3] 0, g_pchip = \<lparr>pb_d = [None, None], pb_out = [None]\<rparr>\<rparr> \<and>
   log_likleyhood chord_spline
     \<lparr>g_data = dataset [75] [3] 0, g_pchip = \<lparr>pb_d = [None, None], pb_out = [None]\<rparr>\<rparr>
     [''f0'', ''f1'', ''a0'', ''a1'', ''a2'', ''a3'', ''a4''] [1, 3, 1, 0, 0, 0, 0] 7 =
   Inr (- ln (sqrt (2 * PI) * 0.025),
        \<lparr>g_data = dataset [75] [3] 0,
         g_pchip = \<lparr>pb_d = [Some 10, Some 10], pb_out = [Some 2]\<rparr>\<rparr>) \<and>
   gd_x (g_data \<lparr>g_data = dataset [75] [3] 0,
         g_pchip = \<lparr>pb_d = [Some 10, Some 10], pb_out = [Some 2]\<rparr>\<rparr>) = map Some [75] \<and>
   ready [75] [3] 0
     \<lparr>g_data = dataset [75] [3] 0,
      g_pchip = \<lparr>pb_d = [Some 10, Some 10], pb_out = [Some 2]\<rparr>\<rparr>"
  using log_likleyhood_keeps_dataset[OF concrete_ready concrete_run] concrete_ready concrete_run
  by simp

subsection \<open>C9: names with another leading character\<close>

text \<open>
  Claim C9.  An entry whose name starts with a character other than \<open>x\<close>,
  \<open>y\<close>, \<open>a\<close> or \<open>f\<close> (the empty name included) is skipped: the loop body
  returns the state it was given, with the same blocks and the same four
  counters, and no fault.
\<close>

theorem kwargs2coef_switch_skips_unknown_tag:
  "i < length keys \<Longrightarrow>
   leading_char (keys ! i) \<notin> {CHR ''x'', CHR ''y'', CHR ''a'', CHR ''f''} \<Longrightarrow>
   kwargs2coef_switch gd keys val i st = Inr st"
  by (simp add: kwargs2coef_switch_def rd_def Let_def)

theorem kwargs2coef_switch_skips_unknown_tag_witness:
  "(0::nat) < length [''q0'', ''''] \<and>
   leading_char ([''q0'', ''''] ! 0) \<notin> {CHR ''x'', CHR ''y'', CHR ''a'', CHR ''f''} \<and>
   kwargs2coef_switch (dataset [75] [1] 0) [''q0'', ''''] [7, 8] 0
       (kwargs2coef_start (dataset [75] [1] 0) 2)
     = Inr (kwargs2coef_start (dataset [75] [1] 0) 2)"
  using kwargs2coef_switch_skips_unknown_tag
    [of 0 "[''q0'', '''']" "dataset [75] [1] 0" "[7, 8]" "kwargs2coef_start (dataset [75] [1] 0) 2"]
  by (simp add: leading_char_def)

subsection \<open>C10: three or more \<open>f\<close> names\<close>

text \<open>
  Claim C10, amended.  For a proposal vector with three or more names under
  \<open>f\<close> and no more than \<open>order\<close> names under \<open>y\<close>, on a decoding that stays
  within its blocks: every \<open>f\<close> entry met while the counter \<open>f_loc\<close> is not 0
  writes its value to index \<open>order + 1\<close> of the knot y-values and leaves the
  counter as it is; at the end that cell holds the value of the last \<open>f\<close>
  entry and cell 0 the value of the first; and after any number of
  iterations the counter is at most 1.
\<close>

theorem kwargs2coef_later_f_overwrite:
  assumes "kwargs2coef_run (dataset xs ys n) keys val len = Inr st"
    and "length keys = len" and "length val = len"
    and "n + 2 \<le> INT_MAX" and "length xs \<le> INT_MAX"
    and "3 \<le> length (tagged CHR ''f'' keys val)"
    and "length (tagged CHR ''y'' keys val) \<le> n"
  shows "coef_y (dec_coef st) ! (n + 1) = Some (last (tagged CHR ''f'' keys val)) \<and>
         coef_y (dec_coef st) ! 0 = Some (tagged CHR ''f'' keys val ! 0) \<and>
         f_loc st = 1 \<and>
         (\<forall>j \<le> len. \<exists>s. kwargs2coef_loop (dataset xs ys n) keys val j 0
                            (kwargs2coef_start (dataset xs ys n) len) = Inr s \<and> f_loc s \<le> 1) \<and>
         (\<forall>j s s'. f_loc s \<noteq> 0 \<and> leading_char (keys ! j) = CHR ''f'' \<and>
              kwargs2coef_switch (dataset xs ys n) keys val j s = Inr s' \<longrightarrow>
              coef_y (dec_coef s') ! (n + 1) = Some (val ! j) \<and> f_loc s' = f_loc s)"
proof -
  have inv: "decoded_upto xs n (a_capacity n len) keys val len st"
    using assms(1,4,5) by (rule run_decoded)
  have T: "take len keys = keys" "take len val = val"
    using assms(2,3) by simp_all
  have F: "tagged CHR ''f'' keys val \<noteq> []" "\<not> length (tagged CHR ''f'' keys val) < 2"
    using assms(6) by auto
  have final: "coef_y (dec_coef st) ! (n + 1) = Some (last (tagged CHR ''f'' keys val))"
    "coef_y (dec_coef st) ! 0 = Some (tagged CHR ''f'' keys val ! 0)" "f_loc st = 1"
    using inv F assms(7) unfolding decoded_upto_def Let_def T by simp_all
  have counter: "\<exists>s. kwargs2coef_loop (dataset xs ys n) keys val j 0
                   (kwargs2coef_start (dataset xs ys n) len) = Inr s \<and> f_loc s \<le> 1"
    if "j \<le> len" for j
  proof -
    from kwargs2coef_loop_prefix[OF assms(1)[unfolded kwargs2coef_run_def] _ that]
    obtain s where s: "kwargs2coef_loop (dataset xs ys n) keys val j 0
                   (kwargs2coef_start (dataset xs ys n) len) = Inr s" by auto
    from run_decoded_prefix[OF s assms(4,5)] have "f_loc s \<le> 1"
      by (simp add: decoded_upto_def Let_def)
    with s show ?thesis by blast
  qed
  have "size_add n 1 = n + 1"
    using assms(4) by (intro size_add_small) (simp add: INT_MAX_def)
  then have sa: "size_add n 1 = Suc n" "size_add n (Suc 0) = Suc n" by simp_all
  have step: "coef_y (dec_coef s') ! (n + 1) = Some (val ! j) \<and> f_loc s' = f_loc s"
    if "f_loc s \<noteq> 0" "leading_char (keys ! j) = CHR ''f''"
      "kwargs2coef_switch (dataset xs ys n) keys val j s = Inr s'" for j s s'
    using switch_f_later[OF that(3,2,1)] by (auto simp: sa dataset_def)
  show ?thesis using final counter step by blast
qed

theorem kwargs2coef_later_f_overwrite_witness:
  "kwargs2coef_run (dataset [50, 60] [1, 2] 1) [''f0'', ''y0'', ''f1'', ''x0'', ''f2''] [1, 2, 3, 4, 5] 5 =
     Inr \<lparr>dec_coef = \<lparr>coef_x = [Some 49.9, Some 4, Some 60.1],
                       coef_y = [Some 1, Some 2, Some 5], coef_a = [None]\<rparr>,
          x_loc = 2, y_loc = 2, a_loc = 0, f_loc = 1\<rparr> \<and>
   tagged CHR ''f'' [''f0'', ''y0'', ''f1'', ''x0'', ''f2''] [1, 2, 3, 4, 5] = [1, 3, 5] \<and>
   tagged CHR ''y'' [''f0'', ''y0'', ''f1'', ''x0'', ''f2''] [1, 2, 3, 4, 5] = [2] \<and>
   [Some 1, Some 2, Some (5::real)] ! (1 + 1) = Some (last [1, 3, 5])"
proof -
  let ?K = "[''f0'', ''y0'', ''f1'', ''x0'', ''f2'']"
  let ?V = "[1, 2, 3, 4, 5] :: real list"
  let ?S = "\<lparr>dec_coef = \<lparr>coef_x = [Some 49.9, Some 4, Some 60.1],
                       coef_y = [Some 1, Some 2, Some 5], coef_a = [None]\<rparr>,
          x_loc = 2, y_loc = 2, a_loc = 0, f_loc = 1\<rparr>"
  have run: "kwargs2coef_run (dataset [50, 60] [1, 2] 1) ?K ?V 5 = Inr ?S"
    by (simp add: run_simps)
  have F: "tagged CHR ''f'' ?K ?V = [1, 3, 5]" "tagged CHR ''y'' ?K ?V = [2]"
    by (simp_all add: tagged_def leading_char_def)
  have "coef_y (dec_coef ?S) ! (1 + 1) = Some (last (tagged CHR ''f'' ?K ?V))"
    using kwargs2coef_later_f_overwrite[OF run] F by (simp add: INT_MAX_def)
  then show ?thesis using run F by simp
qed

text \<open>
  The claim as it was stated fails when a name under \<open>y\<close> follows the last
  \<open>f\<close> and is the \<open>order + 1\<close>-th of its kind: at order 0, after
  \<open>f0, f1, f2\<close> the entry \<open>y0\<close> is written to index \<open>y_loc = 1\<close>, the right
  boundary, which then holds 4 and not the value 3 of the last \<open>f\<close>.
\<close>

theorem kwargs2coef_last_f_counterexample:
  "kwargs2coef_run (dataset [75] [1] 0) [''f0'', ''f1'', ''f2'', ''y0''] [1, 2, 3, 4] 4 =
     Inr \<lparr>dec_coef = \<lparr>coef_x = [Some 74.9, Some 75.1],
                       coef_y = [Some 1, Some 4], coef_a = [None, None]\<rparr>,
          x_loc = 1, y_loc = 2, a_loc = 0, f_loc = 1\<rparr> \<and>
   tagged CHR ''f'' [''f0'', ''f1'', ''f2'', ''y0''] [1, 2, 3, 4] = [1, 2, 3] \<and>
   [Some 1, Some (4::real)] ! (0 + 1) \<noteq> Some (last [1, 2, 3])"
  by (simp add: run_simps)

end
